theory Spec2Isabelle
  imports Complex_Main "HOL-Library.Monad_Syntax" "HOL-Library.Log_Nat"
begin

section \<open>Numbers, errors and lyric events\<close>

text \<open>
  JavaScript numbers are IEEE 754 double-precision numbers. A finite double is modelled
  as the real number it stands for, and every addition, subtraction, multiplication and
  division of the clock, of the lookup and of the progress number rounds its exact result
  to the nearest double, which \<open>fl\<close> below computes. A decimal literal of the source such
  as \<open>0.1\<close> is the double \<open>fl 0.1\<close>. Comparisons, \<open>Math.abs\<close> and \<open>Math.max\<close> are
  exact. Overflow to an infinity (magnitudes from \<open>2 ^ 1024\<close> on) and the sign of zero are
  outside the model. The one place where the program leaves the finite numbers at ordinary
  inputs, a division by a zero duration, is modelled with \<open>jsnum\<close> below. The parser's
  tag times are kept as the exact sums \<open>mins * 60 + secs + ms / 1000\<close>.
  A call of a method on \<open>null\<close> raises a \<open>TypeError\<close>.
\<close>

datatype js_error = TypeError

text \<open>A lyric line \<open>{time, text}\<close>; the field \<open>text\<close> is written \<open>text'\<close> here.\<close>

record LyricEvent =
  time :: real
  text' :: string

section \<open>Rounding to the nearest double\<close>

text \<open>
  \<open>ilog2 x\<close> is the binary exponent of a positive \<open>x\<close>: \<open>2 ^ ilog2 x \<le> x < 2 ^ (ilog2 x + 1)\<close>.
  A double has a significand of 53 bits, so around \<open>x\<close> the doubles are the multiples of
  \<open>2 ^ ulpExp x\<close>, where \<open>ulpExp x\<close> is \<open>ilog2 \<bar>x\<bar> - 52\<close>, and \<open>- 1074\<close> in the
  subnormal range. \<open>fl x\<close> is the multiple nearest to \<open>x\<close>, the one with the even
  significand when \<open>x\<close> lies half way (round to nearest, ties to even). \<open>isDouble x\<close>
  says that \<open>x\<close> is a double, so that no rounding happens at \<open>x\<close>.
\<close>

definition ilog2 :: "real \<Rightarrow> int" where
  "ilog2 x = (if 1 \<le> x then bitlen \<lfloor>x\<rfloor> - 1 else - bitlen (\<lceil>1 / x\<rceil> - 1))"

definition roundHalfEven :: "real \<Rightarrow> int" where
  "roundHalfEven q =
     (let f = \<lfloor>q\<rfloor>; r = q - of_int f
      in if r < 1 / 2 then f else if r > 1 / 2 then f + 1 else if even f then f else f + 1)"

definition ulpExp :: "real \<Rightarrow> int" where
  "ulpExp x = max (ilog2 \<bar>x\<bar> - 52) (- 1074)"

definition fl :: "real \<Rightarrow> real" where
  "fl x =
     (if x = 0 then 0
      else of_int (roundHalfEven (x / 2 powi ulpExp x)) * 2 powi ulpExp x)"

definition isDouble :: "real \<Rightarrow> bool" where
  "isDouble x = (fl x = x)"

section \<open>AudioSyncEngine (the secondary clock)\<close>

text \<open>
  The engine's fields. \<open>audioContext\<close> is \<open>None\<close> for \<open>null\<close> (before
  \<open>init\<close>) and \<open>Some c\<close> for a context whose \<open>currentTime\<close> reads \<open>c\<close>.
\<close>

record AudioSyncEngine =
  audioContext :: "real option"
  startTime :: real
  pausedTime :: real
  driftCorrection :: real

definition newAudioSyncEngine :: AudioSyncEngine where
  "newAudioSyncEngine =
     \<lparr>audioContext = None, startTime = 0, pausedTime = 0, driftCorrection = 0\<rparr>"

text \<open>\<open>init\<close> creates the context if there is none; \<open>c0\<close> is what the new context's clock reads.\<close>

definition init :: "real \<Rightarrow> AudioSyncEngine \<Rightarrow> AudioSyncEngine" where
  "init c0 e = (case audioContext e of None \<Rightarrow> e\<lparr>audioContext := Some c0\<rparr> | Some c \<Rightarrow> e)"

text \<open>
  The audio hardware advances the context's clock by \<open>d\<close> seconds, to the reading
  \<open>c + d\<close>; the engine's fields stay.
\<close>

definition audioClockAdvance :: "real \<Rightarrow> AudioSyncEngine \<Rightarrow> AudioSyncEngine" where
  "audioClockAdvance d e = e\<lparr>audioContext := map_option (\<lambda>c. c + d) (audioContext e)\<rparr>"

definition getAccurateTime :: "AudioSyncEngine \<Rightarrow> real" where
  "getAccurateTime e =
     (case audioContext e of
        None \<Rightarrow> 0
      | Some c \<Rightarrow>
          (let rawTime = fl (fl (c - startTime e) + pausedTime e)
           in max 0 (fl (rawTime + driftCorrection e))))"

definition start :: "real \<Rightarrow> AudioSyncEngine \<Rightarrow> js_error + AudioSyncEngine" where
  "start currentVideoTime e =
     (case audioContext e of
        None \<Rightarrow> Inl TypeError
      | Some c \<Rightarrow> Inr (e\<lparr>startTime := fl (c - currentVideoTime)\<rparr>))"

definition pause :: "real \<Rightarrow> AudioSyncEngine \<Rightarrow> AudioSyncEngine" where
  "pause currentVideoTime e = e\<lparr>pausedTime := currentVideoTime\<rparr>"

definition correctDrift :: "real \<Rightarrow> real \<Rightarrow> AudioSyncEngine \<Rightarrow> AudioSyncEngine" where
  "correctDrift videoTime syncedTime e =
     (let drift = fl (videoTime - syncedTime)
      in if \<bar>drift\<bar> > fl 0.2
         then e\<lparr>driftCorrection := fl (driftCorrection e + fl (drift * fl 0.3))\<rparr>
         else e)"

text \<open>The engine as \<open>onReady\<close> leaves it when the new context's clock reads 0.\<close>

definition readyEngine :: AudioSyncEngine where
  "readyEngine = init 0 newAudioSyncEngine"

text \<open>An engine in the middle of a playback, with an accumulated drift correction.\<close>

definition playingEngine :: AudioSyncEngine where
  "playingEngine =
     \<lparr>audioContext = Some 100.5, startTime = 0.25, pausedTime = 0, driftCorrection = fl 0.3\<rparr>"

text \<open>
  The three sums of \<open>getAccurateTime\<close> are exact at the present reading of the clock: each
  result is a double, so that no rounding happens.
\<close>

definition exactReading :: "AudioSyncEngine \<Rightarrow> bool" where
  "exactReading e =
     (case audioContext e of
        None \<Rightarrow> True
      | Some c \<Rightarrow>
          isDouble (c - startTime e) \<and>
          isDouble (c - startTime e + pausedTime e) \<and>
          isDouble (c - startTime e + pausedTime e + driftCorrection e))"

section \<open>The transport and the progress number\<close>

text \<open>
  What the video player reports on one tick. The player variable is \<open>null\<close> (or not yet
  usable) until the player exists: \<open>None\<close>.
\<close>

record Player =
  getCurrentTime :: real
  getDuration :: real

text \<open>
  The result of a JavaScript division of two finite numbers, and of multiplying that by 100:
  a zero divisor gives \<open>NaN\<close> for \<open>0 / 0\<close> and an infinity otherwise (the player reports
  a positive zero); a finite result is rounded to the nearest double.
\<close>

datatype jsnum = Finite real | PosInfinity | NegInfinity | NaN

definition js_div :: "real \<Rightarrow> real \<Rightarrow> jsnum" where
  "js_div a b =
     (if b \<noteq> 0 then Finite (fl (a / b))
      else if a = 0 then NaN
      else if a > 0 then PosInfinity else NegInfinity)"

fun js_times100 :: "jsnum \<Rightarrow> jsnum" where
  "js_times100 (Finite x) = Finite (fl (x * 100))"
| "js_times100 PosInfinity = PosInfinity"
| "js_times100 NegInfinity = NegInfinity"
| "js_times100 NaN = NaN"

section \<open>app.js: progress tick and lyric lookup\<close>

text \<open>
  The module-level state of app.js that the tick reads and writes. \<open>progressFillWidth\<close>
  is the number written into \<open>elements.progressFill.style.width\<close> (before the percent
  sign), \<open>None\<close> while nothing was written; \<open>highlighted\<close> logs the calls of
  \<open>highlightCurrentLine\<close>. The time display text is not modelled.
\<close>

record AppState =
  syncedLyrics :: "LyricEvent list"
  hasSyncedLyrics :: bool
  currentLineIndex :: int
  progressFillWidth :: "jsnum option"
  highlighted :: "int list"

text \<open>
  The backward scan \<open>for (let i = length - 1; i >= 0; i--)\<close>: the last argument is
  \<open>i + 1\<close>, so the scan is started with the length and reads only inside the array.
\<close>

fun scanSyncedLyrics :: "real \<Rightarrow> LyricEvent list \<Rightarrow> nat \<Rightarrow> int" where
  "scanSyncedLyrics currentTime ls 0 = - 1"
| "scanSyncedLyrics currentTime ls (Suc i) =
     (if currentTime \<ge> time (ls ! i) then int i
      else scanSyncedLyrics currentTime ls i)"

definition syncLyricsToTime :: "real \<Rightarrow> AppState \<Rightarrow> AppState" where
  "syncLyricsToTime currentTime s =
     (if \<not> hasSyncedLyrics s \<or> length (syncedLyrics s) = 0 then s
      else
        (let newLineIndex =
               scanSyncedLyrics currentTime (syncedLyrics s) (length (syncedLyrics s))
         in if newLineIndex \<noteq> currentLineIndex s
            then s\<lparr>currentLineIndex := newLineIndex,
                   highlighted := highlighted s @ [newLineIndex]\<rparr>
            else s))"

definition updateProgress :: "Player option \<Rightarrow> AppState \<Rightarrow> AppState" where
  "updateProgress player s =
     (case player of
        None \<Rightarrow> s
      | Some p \<Rightarrow>
          (let currentTime = getCurrentTime p;
               duration = getDuration p;
               progress = js_times100 (js_div currentTime duration);
               s1 = s\<lparr>progressFillWidth := Some progress\<rparr>
           in if hasSyncedLyrics s1 then syncLyricsToTime currentTime s1 else s1))"

section \<open>The karaoke App: sync frame and lyric lookup\<close>

record LyricsData =
  synced :: bool
  lines :: "LyricEvent list"

text \<open>
  The fields of \<open>App\<close> that a frame of the sync loop touches. \<open>progressWidth\<close> is the
  number written into the progress bar's width, \<open>highlightCalls\<close> logs \<open>highlightLine\<close>,
  \<open>beeps\<close> counts the beeps that \<open>playBeep\<close> played.
\<close>

record App =
  syncEngine :: AudioSyncEngine
  lyrics :: "LyricsData option"
  currentLine :: int
  audioEnabled :: bool
  progressWidth :: "jsnum option"
  highlightCalls :: "int list"
  beeps :: nat

text \<open>
  The same backward scan, with the comparison \<open>currentTime >= lines[i].time - 0.1\<close>: the
  right-hand side is the double nearest to the line's time minus the double 0.1.
\<close>

fun scanLines :: "real \<Rightarrow> LyricEvent list \<Rightarrow> nat \<Rightarrow> int" where
  "scanLines currentTime ls 0 = - 1"
| "scanLines currentTime ls (Suc i) =
     (if currentTime \<ge> fl (time (ls ! i) - fl 0.1) then int i
      else scanLines currentTime ls i)"

definition playBeep :: "App \<Rightarrow> App" where
  "playBeep a =
     (case audioContext (syncEngine a) of None \<Rightarrow> a | Some c \<Rightarrow> a\<lparr>beeps := beeps a + 1\<rparr>)"

definition syncLyrics :: "real \<Rightarrow> App \<Rightarrow> App" where
  "syncLyrics currentTime a =
     (case lyrics a of
        None \<Rightarrow> a
      | Some ld \<Rightarrow>
          (let newLine = scanLines currentTime (lines ld) (length (lines ld))
           in if newLine \<noteq> currentLine a
              then (let a1 = a\<lparr>currentLine := newLine,
                                highlightCalls := highlightCalls a @ [newLine]\<rparr>
                    in if audioEnabled a1 \<and> newLine \<ge> 0 then playBeep a1 else a1)
              else a))"

text \<open>One run of \<open>syncFrame\<close>, the body of the animation-frame loop.\<close>

definition syncFrame :: "Player option \<Rightarrow> App \<Rightarrow> App" where
  "syncFrame player a =
     (case player of
        None \<Rightarrow> a
      | Some p \<Rightarrow>
          (let accurateTime = getAccurateTime (syncEngine a);
               videoTime = getCurrentTime p;
               duration = getDuration p;
               a1 = a\<lparr>syncEngine := correctDrift videoTime accurateTime (syncEngine a)\<rparr>;
               progress = js_times100 (js_div accurateTime duration);
               a2 = a1\<lparr>progressWidth := Some progress\<rparr>
           in syncLyrics accurateTime a2))"

section \<open>Initial states and an example track\<close>

text \<open>The module-level state of app.js and the \<open>App\<close> object as the scripts create them.\<close>

definition initialAppState :: AppState where
  "initialAppState =
     \<lparr>syncedLyrics = [], hasSyncedLyrics = False, currentLineIndex = - 1,
      progressFillWidth = None, highlighted = []\<rparr>"

definition initialApp :: App where
  "initialApp =
     \<lparr>syncEngine = newAudioSyncEngine, lyrics = None, currentLine = - 1,
      audioEnabled = True, progressWidth = None, highlightCalls = [], beeps = 0\<rparr>"

text \<open>A track with three lines at 0, 3 and 6 seconds, loaded into either program.\<close>

definition exampleLines :: "LyricEvent list" where
  "exampleLines =
     [\<lparr>time = 0, text' = ''Line A''\<rparr>, \<lparr>time = 3, text' = ''Line B''\<rparr>,
      \<lparr>time = 6, text' = ''Line C''\<rparr>]"

definition exampleAppState :: AppState where
  "exampleAppState = initialAppState\<lparr>syncedLyrics := exampleLines, hasSyncedLyrics := True\<rparr>"

definition exampleApp :: App where
  "exampleApp =
     initialApp\<lparr>syncEngine := readyEngine,
                lyrics := Some \<lparr>synced = True, lines = exampleLines\<rparr>\<rparr>"

section \<open>Strings and the regular expressions of the LRC parsers\<close>

text \<open>
  A string is a list of 8-bit characters (the code units below 256). \<open>\d\<close> is an ASCII
  digit. \<open>parseInt\<close> is only ever called on a captured group of digits, where it reads
  the decimal number; \<open>padEnd(3, '0')\<close> appends zeros up to length 3. \<open>trim\<close> removes
  white space and line terminators (tab, LF, VT, FF, CR, space, NBSP) at both ends.
\<close>

definition isDigit :: "char \<Rightarrow> bool" where
  "isDigit c = (c \<in> set ''0123456789'')"

definition digitValue :: "char \<Rightarrow> nat" where
  "digitValue c = of_char c - 48"

definition parseInt :: "string \<Rightarrow> nat" where
  "parseInt ds = foldl (\<lambda>n c. 10 * n + digitValue c) 0 (takeWhile isDigit ds)"

definition padEnd :: "nat \<Rightarrow> char \<Rightarrow> string \<Rightarrow> string" where
  "padEnd n c s = s @ replicate (n - length s) c"

definition isWhiteSpace :: "char \<Rightarrow> bool" where
  "isWhiteSpace c =
     (c \<in> set [CHR 0x09, CHR 0x0A, CHR 0x0B, CHR 0x0C, CHR 0x0D, CHR 0x20, CHR 0xA0])"

definition trim :: "string \<Rightarrow> string" where
  "trim s = rev (dropWhile isWhiteSpace (rev (dropWhile isWhiteSpace s)))"

text \<open>\<open>s.split('\n')\<close>: the pieces between line feeds; the empty string gives one empty piece.\<close>

fun splitLines :: "string \<Rightarrow> string list" where
  "splitLines [] = [[]]"
| "splitLines (c # cs) =
     (if c = CHR 0x0A then [] # splitLines cs
      else (case splitLines cs of
              [] \<Rightarrow> [[c]]
            | l # ls \<Rightarrow> (c # l) # ls))"

text \<open>
  Matching a pattern at the head of a string gives the captured groups and the rest of the
  string after the match. \<open>expect\<close> matches one literal character, \<open>digits n\<close> matches
  \<open>\d{n}\<close>.
\<close>

fun expect :: "char \<Rightarrow> string \<Rightarrow> string option" where
  "expect c [] = None"
| "expect c (x # xs) = (if x = c then Some xs else None)"

definition digits :: "nat \<Rightarrow> string \<Rightarrow> (string \<times> string) option" where
  "digits n s =
     (if n \<le> length s \<and> list_all isDigit (take n s) then Some (take n s, drop n s)
      else None)"

text \<open>\<open>(\d{2,3})\]\<close>: greedy, three digits first, then two.\<close>

definition fractionClose :: "nat \<Rightarrow> string \<Rightarrow> (string \<times> string) option" where
  "fractionClose n s = do { (g, r) \<leftarrow> digits n s; r' \<leftarrow> expect CHR '']'' r; Some (g, r') }"

definition fraction :: "string \<Rightarrow> (string \<times> string) option" where
  "fraction s = (case fractionClose 3 s of Some m \<Rightarrow> Some m | None \<Rightarrow> fractionClose 2 s)"

text \<open>app.js: \<open>/\[(\d{2}):(\d{2})\.(\d{2,3})\]/\<close> at the head of \<open>s\<close>.\<close>

definition timeRegex :: "string \<Rightarrow> ((string \<times> string \<times> string) \<times> string) option" where
  "timeRegex s =
     do { s1 \<leftarrow> expect CHR ''['' s;
          (g1, s2) \<leftarrow> digits 2 s1;
          s3 \<leftarrow> expect CHR '':'' s2;
          (g2, s4) \<leftarrow> digits 2 s3;
          s5 \<leftarrow> expect CHR ''.'' s4;
          (g3, s6) \<leftarrow> fraction s5;
          Some ((g1, g2, g3), s6) }"

text \<open>
  The karaoke App: \<open>/\[(\d{1,2}):(\d{2})\.(\d{2,3})\](.*)/\<close> at the head of \<open>s\<close>. The
  minutes are tried with two digits first, then with one; \<open>.\<close> matches every character
  but a line terminator (LF, CR).
\<close>

definition isLineTerminator :: "char \<Rightarrow> bool" where
  "isLineTerminator c = (c = CHR 0x0A \<or> c = CHR 0x0D)"

definition lrcRegexMinutes ::
  "nat \<Rightarrow> string \<Rightarrow> ((string \<times> string \<times> string \<times> string) \<times> string) option" where
  "lrcRegexMinutes n s1 =
     do { (g1, s2) \<leftarrow> digits n s1;
          s3 \<leftarrow> expect CHR '':'' s2;
          (g2, s4) \<leftarrow> digits 2 s3;
          s5 \<leftarrow> expect CHR ''.'' s4;
          (g3, s6) \<leftarrow> fraction s5;
          Some ((g1, g2, g3, takeWhile (\<lambda>c. \<not> isLineTerminator c) s6),
                dropWhile (\<lambda>c. \<not> isLineTerminator c) s6) }"

definition lrcRegex ::
  "string \<Rightarrow> ((string \<times> string \<times> string \<times> string) \<times> string) option" where
  "lrcRegex s =
     do { s1 \<leftarrow> expect CHR ''['' s;
          (case lrcRegexMinutes 2 s1 of Some m \<Rightarrow> Some m | None \<Rightarrow> lrcRegexMinutes 1 s1) }"

text \<open>
  \<open>regex.exec(s)\<close> of a global regular expression: the first position at or after
  \<open>lastIndex\<close> where the pattern matches. The result is \<open>(index, length of match[0],
  groups)\<close>, or \<open>None\<close> for \<open>null\<close>; the regular expression's new \<open>lastIndex\<close> is the
  end of the match, and 0 after \<open>null\<close>.
\<close>

fun searchFrom :: "(string \<Rightarrow> ('g \<times> string) option) \<Rightarrow> string \<Rightarrow> nat \<Rightarrow> (nat \<times> nat \<times> 'g) option" where
  "searchFrom m [] i =
     (case m [] of Some (g, r) \<Rightarrow> Some (i, 0, g) | None \<Rightarrow> None)"
| "searchFrom m (c # cs) i =
     (case m (c # cs) of
        Some (g, r) \<Rightarrow> Some (i, length (c # cs) - length r, g)
      | None \<Rightarrow> searchFrom m cs (Suc i))"

definition regexExec ::
  "(string \<Rightarrow> ('g \<times> string) option) \<Rightarrow> string \<Rightarrow> nat \<Rightarrow> (nat \<times> nat \<times> 'g) option" where
  "regexExec m s lastIndex =
     (if lastIndex > length s then None else searchFrom m (drop lastIndex s) lastIndex)"

section \<open>Array.prototype.sort\<close>

text \<open>
  The sort of an array by a comparator. ECMAScript requires it to be stable; it is modelled
  as the insertion sort that puts an element before the first later element that the
  comparator does not place before it.
\<close>

fun insertSorted :: "('a \<Rightarrow> 'a \<Rightarrow> real) \<Rightarrow> 'a \<Rightarrow> 'a list \<Rightarrow> 'a list" where
  "insertSorted cmp x [] = [x]"
| "insertSorted cmp x (y # ys) =
     (if cmp x y \<le> 0 then x # y # ys else y # insertSorted cmp x ys)"

fun arraySort :: "('a \<Rightarrow> 'a \<Rightarrow> real) \<Rightarrow> 'a list \<Rightarrow> 'a list" where
  "arraySort cmp [] = []"
| "arraySort cmp (x # xs) = insertSorted cmp x (arraySort cmp xs)"

definition compareTime :: "LyricEvent \<Rightarrow> LyricEvent \<Rightarrow> real" where
  "compareTime a b = time a - time b"

section \<open>app.js: parseLrcLyrics\<close>

definition tagTime :: "string \<Rightarrow> string \<Rightarrow> string \<Rightarrow> real" where
  "tagTime g1 g2 g3 =
     (let mins = parseInt g1;
          secs = parseInt g2;
          ms = parseInt (padEnd 3 CHR ''0'' g3)
      in real mins * 60 + real secs + real ms / 1000)"

text \<open>
  The \<open>while ((match = timeRegex.exec(line)) !== null)\<close> loop of one line. \<open>reLastIndex\<close>
  is the regular expression's own \<open>lastIndex\<close>; \<open>timestamps\<close> and \<open>lastIndex\<close> are the
  loop's variables. The loop returns \<open>None\<close> if it never ends.
\<close>

partial_function (option) timestampLoop ::
  "string \<Rightarrow> nat \<Rightarrow> real list \<Rightarrow> nat \<Rightarrow> (real list \<times> nat) option" where
  "timestampLoop line reLastIndex timestamps lastIndex =
     (case regexExec timeRegex line reLastIndex of
        None \<Rightarrow> Some (timestamps, lastIndex)
      | Some (index, len, (g1, g2, g3)) \<Rightarrow>
          timestampLoop line (index + len) (timestamps @ [tagTime g1 g2 g3]) (index + len))"

declare timestampLoop.simps [code]

text \<open>The events that one line pushes onto \<open>parsed\<close>.\<close>

definition lineEvents :: "string \<Rightarrow> LyricEvent list option" where
  "lineEvents line =
     do { (timestamps, lastIndex) \<leftarrow> timestampLoop line 0 [] 0;
          let text = trim (drop lastIndex line);
          Some (concat (map (\<lambda>t. if text \<noteq> [] then [\<lparr>time = t, text' = text\<rparr>] else [])
                  timestamps)) }"

fun parseLines :: "string list \<Rightarrow> LyricEvent list \<Rightarrow> LyricEvent list option" where
  "parseLines [] parsed = Some parsed"
| "parseLines (line # rest) parsed =
     do { evs \<leftarrow> lineEvents line; parseLines rest (parsed @ evs) }"

text \<open>\<open>parsed\<close> as it is before the sort, in the order of the pushes.\<close>

definition parsedBeforeSort :: "string \<Rightarrow> LyricEvent list option" where
  "parsedBeforeSort lrcText = parseLines (splitLines lrcText) []"

definition parseLrcLyrics :: "string \<Rightarrow> LyricEvent list option" where
  "parseLrcLyrics lrcText =
     do { parsed \<leftarrow> parsedBeforeSort lrcText; Some (arraySort compareTime parsed) }"

text \<open>
  A string that is one whole timestamp tag, \<open>[MM:SS.ff]\<close> or \<open>[MM:SS.fff]\<close>, and the
  time it stands for.
\<close>

definition wholeTag :: "string \<Rightarrow> bool" where
  "wholeTag tg = (case timeRegex tg of Some (g, r) \<Rightarrow> r = [] | None \<Rightarrow> False)"

definition timeOfTag :: "string \<Rightarrow> real" where
  "timeOfTag tg = (case timeRegex tg of Some ((g1, g2, g3), r) \<Rightarrow> tagTime g1 g2 g3 | None \<Rightarrow> 0)"

section \<open>The karaoke App: LyricsService.parseLRC\<close>

text \<open>
  The \<open>while ((match = regex.exec(lrcText)) !== null)\<close> loop over the whole text;
  \<open>ls\<close> is the array \<open>lines\<close>.
\<close>

partial_function (option) parseLRCLoop ::
  "string \<Rightarrow> nat \<Rightarrow> LyricEvent list \<Rightarrow> LyricEvent list option" where
  "parseLRCLoop lrcText reLastIndex ls =
     (case regexExec lrcRegex lrcText reLastIndex of
        None \<Rightarrow> Some ls
      | Some (index, len, (g1, g2, g3, g4)) \<Rightarrow>
          (let time = tagTime g1 g2 g3;
               text = trim g4
           in parseLRCLoop lrcText (index + len)
                (if text \<noteq> [] then ls @ [\<lparr>time = time, text' = text\<rparr>] else ls)))"

declare parseLRCLoop.simps [code]

definition linesBeforeSort :: "string \<Rightarrow> LyricEvent list option" where
  "linesBeforeSort lrcText = parseLRCLoop lrcText 0 []"

definition parseLRC :: "string \<Rightarrow> LyricEvent list option" where
  "parseLRC lrcText =
     do { ls \<leftarrow> linesBeforeSort lrcText; Some (arraySort compareTime ls) }"

section \<open>Properties of the rounding\<close>

text \<open>
  The rounding is symmetric, leaves a double as it is, gives a double nearest to its
  argument and is monotone.
\<close>

lemma ilog2_bounds:
  assumes "0 < x"
  shows "2 powi ilog2 x \<le> x \<and> x < 2 powi (ilog2 x + 1)"
proof (cases "1 \<le> x")
  case True
  define n where "n = \<lfloor>x\<rfloor>"
  have n: "0 < n" using True by (simp add: n_def)
  define K where "K = nat (bitlen n - 1)"
  have b1: "bitlen n \<ge> 1" using n by (auto simp: bitlen_alt_def)
  then have bK: "bitlen n = int K + 1" by (simp add: K_def)
  have nK: "nat (bitlen n) = Suc K" unfolding bK by simp
  from bitlen_bounds [OF n] have lo: "2 ^ K \<le> n" and hi: "n < 2 ^ Suc K"
    unfolding nK K_def [symmetric] by simp_all
  have i: "ilog2 x = int K" using True by (simp add: ilog2_def n_def [symmetric] bK)
  have "real_of_int (2 ^ K) \<le> real_of_int n" using lo by (simp only: of_int_le_iff)
  then have "(2::real) ^ K \<le> real_of_int n" by simp
  moreover have "real_of_int n \<le> x" by (simp add: n_def)
  ultimately have "(2::real) ^ K \<le> x" by linarith
  then have 1: "2 powi ilog2 x \<le> x" by (simp add: i)
  have "n + 1 \<le> 2 ^ Suc K" using hi by simp
  then have "real_of_int (n + 1) \<le> real_of_int (2 ^ Suc K)" by (simp only: of_int_le_iff)
  then have "real_of_int n + 1 \<le> 2 ^ Suc K" by simp
  moreover have "x < real_of_int n + 1" by (simp add: n_def)
  ultimately have "x < 2 ^ Suc K" by linarith
  moreover have "(2::real) powi (int K + 1) = 2 ^ Suc K"
    by (simp add: power_int_def nat_add_distrib)
  ultimately have 2: "x < 2 powi (ilog2 x + 1)" by (simp add: i)
  from 1 2 show ?thesis by simp
next
  case False
  then have x1: "x < 1" by simp
  define y where "y = 1 / x"
  have y1: "1 < y" using assms x1 by (simp add: y_def)
  define n where "n = \<lceil>y\<rceil>"
  have n2: "2 \<le> n" using y1 unfolding n_def by linarith
  have n1: "0 < n - 1" using n2 by simp
  define K where "K = nat (bitlen (n - 1) - 1)"
  have b1: "bitlen (n - 1) \<ge> 1" using n1 by (auto simp: bitlen_alt_def)
  then have bK: "bitlen (n - 1) = int K + 1" by (simp add: K_def)
  have nK: "nat (bitlen (n - 1)) = Suc K" unfolding bK by simp
  from bitlen_bounds [OF n1] have lo: "2 ^ K \<le> n - 1" and hi: "n - 1 < 2 ^ Suc K"
    unfolding nK K_def [symmetric] by simp_all
  have i: "ilog2 x = - (int K + 1)"
    using False by (simp add: ilog2_def y_def [symmetric] n_def [symmetric] bK)
  have "n \<le> 2 ^ Suc K" using hi by simp
  then have "real_of_int n \<le> real_of_int (2 ^ Suc K)" by (simp only: of_int_le_iff)
  then have "real_of_int n \<le> 2 ^ Suc K" by simp
  moreover have "y \<le> real_of_int n" by (simp add: n_def)
  ultimately have yhi: "y \<le> 2 ^ Suc K" by linarith
  have "real_of_int (2 ^ K) \<le> real_of_int (n - 1)" using lo by (simp only: of_int_le_iff)
  then have "(2::real) ^ K \<le> real_of_int n - 1" by simp
  moreover have "real_of_int n - 1 < y" unfolding n_def by linarith
  ultimately have ylo: "2 ^ K < y" by linarith
  have p1: "(2::real) powi (- (int K + 1)) = 1 / 2 ^ Suc K"
    by (simp add: power_int_def nat_add_distrib field_simps)
  have p2: "(2::real) powi (- (int K + 1) + 1) = 1 / 2 ^ K"
    by (simp add: power_int_def field_simps)
  have xy: "x = 1 / y" using assms by (simp add: y_def)
  have A: "1 / 2 ^ Suc K \<le> x"
    unfolding xy using yhi y1 by (simp add: field_simps)
  have B: "x < 1 / 2 ^ K"
    unfolding xy using ylo y1 by (simp add: field_simps)
  have 1: "2 powi ilog2 x \<le> x" using A by (simp only: i p1)
  have 2: "x < 2 powi (ilog2 x + 1)" using B by (simp only: i p2)
  from 1 2 show ?thesis by simp
qed


lemma ilog2_ge: "0 < x \<Longrightarrow> 2 powi k \<le> x \<Longrightarrow> k \<le> ilog2 x"
proof (rule ccontr)
  assume x: "0 < x" and k: "2 powi k \<le> x" and n: "\<not> k \<le> ilog2 x"
  then have "ilog2 x + 1 \<le> k" by simp
  then have "(2::real) powi (ilog2 x + 1) \<le> 2 powi k" by (intro power_int_increasing) simp_all
  with k ilog2_bounds [OF x] show False by linarith
qed

lemma ilog2_le: "0 < x \<Longrightarrow> x < 2 powi (k + 1) \<Longrightarrow> ilog2 x \<le> k"
proof (rule ccontr)
  assume x: "0 < x" and k: "x < 2 powi (k + 1)" and n: "\<not> ilog2 x \<le> k"
  then have "k + 1 \<le> ilog2 x" by simp
  then have "(2::real) powi (k + 1) \<le> 2 powi ilog2 x" by (intro power_int_increasing) simp_all
  with k ilog2_bounds [OF x] show False by linarith
qed

lemma roundHalfEven_of_int: "roundHalfEven (of_int k) = k"
  by (simp add: roundHalfEven_def)

lemma roundHalfEven_cases:
  "roundHalfEven q = \<lfloor>q\<rfloor> \<and> q - of_int \<lfloor>q\<rfloor> \<le> 1 / 2 \<or>
   roundHalfEven q = \<lfloor>q\<rfloor> + 1 \<and> q - of_int \<lfloor>q\<rfloor> \<ge> 1 / 2"
  by (auto simp: roundHalfEven_def Let_def)

lemma roundHalfEven_nearest: "\<bar>q - of_int (roundHalfEven q)\<bar> \<le> \<bar>q - of_int k\<bar>"
proof -
  have f: "of_int \<lfloor>q\<rfloor> \<le> q" "q < of_int \<lfloor>q\<rfloor> + 1" by linarith+
  consider "k \<le> \<lfloor>q\<rfloor>" | "\<lfloor>q\<rfloor> + 1 \<le> k" by linarith
  then show ?thesis
  proof cases
    case 1
    then have "(of_int k :: real) \<le> of_int \<lfloor>q\<rfloor>" by (simp only: of_int_le_iff)
    with f roundHalfEven_cases [of q] show ?thesis by auto
  next
    case 2
    then have "(of_int (\<lfloor>q\<rfloor> + 1) :: real) \<le> of_int k" by (simp only: of_int_le_iff)
    then have "(of_int \<lfloor>q\<rfloor> :: real) + 1 \<le> of_int k" by simp
    with f roundHalfEven_cases [of q] show ?thesis by auto
  qed
qed

lemma roundHalfEven_minus: "roundHalfEven (- q) = - roundHalfEven q"
proof (cases "q = of_int \<lfloor>q\<rfloor>")
  case True
  then obtain k where "q = of_int k" ..
  then show ?thesis by (simp add: roundHalfEven_of_int flip: of_int_minus)
next
  case False
  define n where "n = \<lfloor>q\<rfloor>"
  have "of_int n \<le> q" "q < of_int n + 1" unfolding n_def by linarith+
  with False have lt: "of_int n < q" and ub: "q < of_int n + 1"
    unfolding n_def [symmetric] by linarith+
  have "- q < of_int (- n - 1) + 1" "of_int (- n - 1) \<le> - q"
    using lt ub by simp_all
  then have fm: "\<lfloor>- q\<rfloor> = - n - 1"
    by (intro floor_unique)
  show ?thesis
    unfolding roundHalfEven_def Let_def fm n_def [symmetric]
    using lt ub by (auto simp: algebra_simps)
qed

lemma ulpExp_minus: "ulpExp (- x) = ulpExp x"
  by (simp add: ulpExp_def)

lemma ulpExp_ge: "- 1074 \<le> ulpExp x"
  by (simp add: ulpExp_def)

lemma fl_zero: "fl 0 = 0"
  by (simp add: fl_def)

lemma fl_minus: "fl (- x) = - fl x"
  by (simp add: fl_def ulpExp_minus roundHalfEven_minus)

lemma fl_int_multiple:
  assumes "x = of_int k * 2 powi ulpExp x"
  shows "fl x = x"
proof (cases "x = 0")
  case True
  then show ?thesis by (simp add: fl_zero)
next
  case False
  have "x / 2 powi ulpExp x = of_int k"
    using assms by (metis nonzero_eq_divide_eq power_int_eq_0_iff zero_neq_numeral)
  then show ?thesis using False assms by (simp add: fl_def roundHalfEven_of_int)
qed


lemma pow2_split: "e' \<le> e \<Longrightarrow> (2::real) powi e = of_int (2 ^ nat (e - e')) * 2 powi e'"
proof -
  assume le: "e' \<le> e"
  have "(2::real) powi (e - e') * 2 powi e' = 2 powi e"
    by (subst power_int_add [symmetric]) simp_all
  moreover have "(2::real) powi (e - e') = 2 ^ nat (e - e')"
    using le by (simp add: power_int_def)
  ultimately show ?thesis by simp
qed

lemma abs_quotient_bound:
  assumes "x \<noteq> 0"
  shows "\<bar>x\<bar> < 2 ^ 53 * 2 powi ulpExp x"
proof -
  have x: "0 < \<bar>x\<bar>" using assms by simp
  have "ilog2 \<bar>x\<bar> + 1 \<le> ulpExp x + 53" by (simp add: ulpExp_def)
  then have "(2::real) powi (ilog2 \<bar>x\<bar> + 1) \<le> 2 powi (ulpExp x + 53)"
    by (intro power_int_increasing) simp_all
  also have "\<dots> = 2 powi ulpExp x * 2 powi 53" by (rule power_int_add) simp
  finally show ?thesis using ilog2_bounds [OF x] by simp
qed

lemma roundHalfEven_abs_le:
  assumes "\<bar>q\<bar> < of_int B"
  shows "\<bar>roundHalfEven q\<bar> \<le> B"
proof -
  have "\<bar>q - of_int (roundHalfEven q)\<bar> \<le> \<bar>q - of_int \<lfloor>q\<rfloor>\<bar>"
    by (rule roundHalfEven_nearest)
  moreover have "\<bar>q - of_int \<lfloor>q\<rfloor>\<bar> < 1" by linarith
  ultimately have "\<bar>real_of_int (roundHalfEven q)\<bar> < of_int B + 1" using assms by linarith
  then have "real_of_int \<bar>roundHalfEven q\<bar> < real_of_int (B + 1)" by simp
  then have "\<bar>roundHalfEven q\<bar> < B + 1" by (simp only: of_int_less_iff)
  then show ?thesis by simp
qed

lemma fl_form:
  assumes "x \<noteq> 0"
  shows "fl x = of_int (roundHalfEven (x / 2 powi ulpExp x)) * 2 powi ulpExp x \<and>
         \<bar>roundHalfEven (x / 2 powi ulpExp x)\<bar> \<le> 2 ^ 53"
proof -
  have g: "0 < (2::real) powi ulpExp x" by simp
  have "\<bar>x / 2 powi ulpExp x\<bar> = \<bar>x\<bar> / 2 powi ulpExp x" by simp
  also have "\<dots> < 2 ^ 53"
    using abs_quotient_bound [OF assms] g by (simp add: field_simps)
  finally have "\<bar>x / 2 powi ulpExp x\<bar> < of_int (2 ^ 53)" by simp
  from roundHalfEven_abs_le [OF this] show ?thesis using assms by (simp add: fl_def)
qed

lemma fl_grid_pos:
  assumes m: "1 \<le> m" "m \<le> 2 ^ 53" and e: "- 1074 \<le> e"
  shows "fl (of_int m * 2 powi e) = of_int m * 2 powi e"
proof -
  define v :: real where "v = of_int m * 2 powi e"
  have m1: "(1::real) \<le> of_int m" using m(1) by simp
  have vpos: "0 < v" using m1 by (simp add: v_def)
  have "real_of_int m \<le> real_of_int (2 ^ 53)" using m(2) by (simp only: of_int_le_iff)
  then have m2: "real_of_int m \<le> 2 ^ 53" by simp
  have "v \<le> 2 ^ 53 * 2 powi e" using m2 by (simp add: v_def)
  also have "\<dots> = 2 powi (e + 53)" by (subst power_int_add) simp_all
  also have "\<dots> < 2 powi (e + 53 + 1)" by (intro power_int_strict_increasing) simp_all
  finally have "ilog2 v \<le> e + 53" using vpos by (intro ilog2_le) simp_all
  then have ev: "ulpExp v \<le> e + 1" using e vpos by (simp add: ulpExp_def)
  show ?thesis
  proof (cases "ulpExp v \<le> e")
    case True
    have pe: "(2::real) powi e = of_int (2 ^ nat (e - ulpExp v)) * 2 powi ulpExp v"
      by (rule pow2_split [OF True])
    have "v = of_int m * 2 powi e" by (simp add: v_def)
    also have "\<dots> = of_int m * (of_int (2 ^ nat (e - ulpExp v)) * 2 powi ulpExp v)"
      by (simp only: pe)
    finally have "v = of_int (m * 2 ^ nat (e - ulpExp v)) * 2 powi ulpExp v" by simp
    then have "fl v = v" by (rule fl_int_multiple)
    then show ?thesis by (simp add: v_def)
  next
    case False
    with ev have u: "ulpExp v = e + 1" by simp
    with e have "ilog2 v - 52 = e + 1" using vpos by (simp add: ulpExp_def max_def split: if_splits)
    then have "ilog2 v = e + 53" by simp
    with ilog2_bounds [OF vpos] have "2 powi (e + 53) \<le> v" by simp
    moreover have "(2::real) powi (e + 53) = 2 ^ 53 * 2 powi e" by (subst power_int_add) simp_all
    ultimately have "2 ^ 53 * 2 powi e \<le> real_of_int m * 2 powi e" by (simp add: v_def)
    then have "(2::real) ^ 53 \<le> real_of_int m" by simp
    with m2 have "real_of_int m = 2 ^ 53" by linarith
    then have "v = 2 ^ 53 * 2 powi e" by (simp add: v_def)
    also have "\<dots> = 2 ^ 52 * 2 powi (e + 1)" by (subst power_int_add) simp_all
    also have "\<dots> = of_int (2 ^ 52) * 2 powi ulpExp v" by (simp only: u) simp
    finally have "v = of_int (2 ^ 52) * 2 powi ulpExp v" .
    then have "fl v = v" by (rule fl_int_multiple)
    then show ?thesis by (simp add: v_def)
  qed
qed

lemma fl_grid:
  assumes m: "\<bar>m\<bar> \<le> 2 ^ 53" and e: "- 1074 \<le> e"
  shows "fl (of_int m * 2 powi e) = of_int m * 2 powi e"
proof -
  consider "m = 0" | "1 \<le> m" | "1 \<le> - m" by linarith
  then show ?thesis
  proof cases
    case 1
    then show ?thesis by (simp add: fl_zero)
  next
    case 2
    with m e show ?thesis by (intro fl_grid_pos) simp_all
  next
    case 3
    with m e have "fl (of_int (- m) * 2 powi e) = of_int (- m) * 2 powi e"
      by (intro fl_grid_pos) simp_all
    then have "fl (- (of_int m * 2 powi e)) = - (of_int m * 2 powi e)" by simp
    then show ?thesis by (simp add: fl_minus)
  qed
qed

lemma fl_fl: "fl (fl x) = fl x"
proof (cases "x = 0")
  case True
  then show ?thesis by (simp add: fl_zero)
next
  case False
  from fl_form [OF False] show ?thesis
    using fl_grid [of "roundHalfEven (x / 2 powi ulpExp x)" "ulpExp x"] ulpExp_ge [of x]
    by simp
qed


lemma fl_nearer_than_multiple:
  assumes "x \<noteq> 0"
  shows "\<bar>x - fl x\<bar> \<le> \<bar>x - of_int k * 2 powi ulpExp x\<bar>"
proof -
  define g :: real where "g = 2 powi ulpExp x"
  have g: "0 < g" by (simp add: g_def)
  define q where "q = x / g"
  have x: "x = q * g" using g by (simp add: q_def)
  have f: "fl x = of_int (roundHalfEven q) * g"
    using assms by (simp add: fl_def q_def g_def)
  have "\<bar>x - fl x\<bar> = \<bar>q - of_int (roundHalfEven q)\<bar> * g"
    unfolding f using g by (subst x) (simp add: abs_mult flip: left_diff_distrib)
  also have "\<dots> \<le> \<bar>q - of_int k\<bar> * g"
    using g roundHalfEven_nearest [of q k] by (intro mult_right_mono) simp_all
  also have "\<dots> = \<bar>x - of_int k * g\<bar>"
    using g by (subst x) (simp add: abs_mult flip: left_diff_distrib)
  finally show ?thesis by (simp add: g_def)
qed

lemma fl_nearest:
  assumes d: "fl d = d"
  shows "\<bar>x - fl x\<bar> \<le> \<bar>x - d\<bar>"
proof (cases "x = 0")
  case True
  then show ?thesis by (simp add: fl_zero)
next
  case x0: False
  define e where "e = ulpExp x"
  note near = fl_nearer_than_multiple [OF x0, folded e_def]
  show ?thesis
  proof (cases "d = 0")
    case True
    with near [of 0] show ?thesis by simp
  next
    case d0: False
    define m where "m = roundHalfEven (d / 2 powi ulpExp d)"
    have dm: "d = of_int m * 2 powi ulpExp d"
      using fl_form [OF d0] d by (simp add: m_def)
    show ?thesis
    proof (cases "e \<le> ulpExp d")
      case True
      have "d = of_int m * (of_int (2 ^ nat (ulpExp d - e)) * 2 powi e)"
        using dm by (simp only: pow2_split [OF True, symmetric])
      then have "d = of_int (m * 2 ^ nat (ulpExp d - e)) * 2 powi e" by simp
      with near [of "m * 2 ^ nat (ulpExp d - e)"] show ?thesis by simp
    next
      case False
      then have lt: "ulpExp d < e" by simp
      have xa: "0 < \<bar>x\<bar>" and da: "0 < \<bar>d\<bar>" using x0 d0 by simp_all
      have "- 1074 < e" using lt ulpExp_ge [of d] by simp
      then have ex: "e = ilog2 \<bar>x\<bar> - 52" by (simp add: e_def ulpExp_def max_def split: if_splits)
      have "ilog2 \<bar>d\<bar> - 52 \<le> ulpExp d" by (simp add: ulpExp_def)
      with lt ex have "ilog2 \<bar>d\<bar> + 1 \<le> ilog2 \<bar>x\<bar>" by simp
      then have "(2::real) powi (ilog2 \<bar>d\<bar> + 1) \<le> 2 powi ilog2 \<bar>x\<bar>"
        by (intro power_int_increasing) simp_all
      with ilog2_bounds [OF da] have dB': "\<bar>d\<bar> < 2 powi ilog2 \<bar>x\<bar>" by linarith
      define B :: real where "B = 2 powi ilog2 \<bar>x\<bar>"
      have dB: "\<bar>d\<bar> < B" using dB' by (simp add: B_def)
      have Bx: "B \<le> \<bar>x\<bar>" using ilog2_bounds [OF xa] by (simp add: B_def)
      have "B = 2 powi (e + 52)" by (simp add: B_def ex)
      also have "\<dots> = 2 ^ 52 * 2 powi e" by (subst power_int_add) simp_all
      finally have B: "real_of_int (2 ^ 52) * 2 powi e = B" by simp
      then have B': "real_of_int (- (2 ^ 52)) * 2 powi e = - B" by simp
      have n1: "\<bar>x - fl x\<bar> \<le> \<bar>x - B\<bar>" using near [of "2 ^ 52"] unfolding B .
      have n2: "\<bar>x - fl x\<bar> \<le> \<bar>x - - B\<bar>" using near [of "- (2 ^ 52)"] unfolding B' .
      from n1 n2 Bx dB show ?thesis by linarith
    qed
  qed
qed

lemma fl_mono:
  assumes "x \<le> y"
  shows "fl x \<le> fl y"
proof (rule ccontr)
  assume "\<not> fl x \<le> fl y"
  then have lt: "fl y < fl x" by simp
  have 1: "\<bar>x - fl x\<bar> \<le> \<bar>x - fl y\<bar>" by (rule fl_nearest) (rule fl_fl)
  have 2: "\<bar>y - fl y\<bar> \<le> \<bar>y - fl x\<bar>" by (rule fl_nearest) (rule fl_fl)
  from lt 1 have "fl x + fl y \<le> 2 * x" by linarith
  moreover from lt 2 have "2 * y \<le> fl x + fl y" by linarith
  ultimately have "y \<le> x" by linarith
  with assms have "x = y" by simp
  with lt show False by simp
qed

lemma fl_abs_le:
  assumes "\<bar>x\<bar> \<le> t" and "fl t = t"
  shows "\<bar>fl x\<bar> \<le> t"
proof -
  from assms(1) have "x \<le> t" "- t \<le> x" by linarith+
  then have "fl x \<le> fl t" "fl (- t) \<le> fl x" by (simp_all add: fl_mono)
  then show ?thesis using assms(2) by (simp add: fl_minus abs_le_iff)
qed

lemma fl_abs_ge:
  assumes "t \<le> \<bar>x\<bar>" and "fl t = t"
  shows "t \<le> \<bar>fl x\<bar>"
proof (cases "0 \<le> x")
  case True
  with assms(1) have "t \<le> x" by simp
  then have "fl t \<le> fl x" by (rule fl_mono)
  then show ?thesis using assms(2) by simp
next
  case False
  with assms(1) have "x \<le> - t" by simp
  then have "fl x \<le> fl (- t)" by (rule fl_mono)
  then show ?thesis using assms(2) by (simp add: fl_minus)
qed

text \<open>
  A rounding moves its argument by at most the fraction \<open>2 ^ - 53\<close> of its size (and by
  at most \<open>2 ^ - 1075\<close> in the subnormal range); the bounds below add this up for the three
  sums of \<open>getAccurateTime\<close> and for the update of \<open>correctDrift\<close>.
\<close>

lemma roundHalfEven_half: "\<bar>q - of_int (roundHalfEven q)\<bar> \<le> 1 / 2"
proof -
  have f: "of_int \<lfloor>q\<rfloor> \<le> q" "q < of_int \<lfloor>q\<rfloor> + 1" by linarith+
  with roundHalfEven_cases [of q] show ?thesis by auto
qed

lemma ulp_bound:
  assumes "x \<noteq> 0"
  shows "2 powi ulpExp x \<le> \<bar>x\<bar> / 2 ^ 52 + 1 / 2 ^ 1074"
proof (cases "ilog2 \<bar>x\<bar> - 52 \<le> - 1074")
  case True
  then have "ulpExp x = - 1074" by (simp add: ulpExp_def)
  then have "(2::real) powi ulpExp x = 1 / 2 ^ 1074" by (simp add: power_int_minus_divide)
  then show ?thesis by simp
next
  case False
  then have u: "ulpExp x = ilog2 \<bar>x\<bar> - 52" by (simp add: ulpExp_def)
  have xa: "0 < \<bar>x\<bar>" using assms by simp
  have "(2::real) powi ilog2 \<bar>x\<bar> = 2 powi (ulpExp x + 52)" by (simp add: u)
  also have "\<dots> = 2 powi ulpExp x * 2 ^ 52" by (subst power_int_add) simp_all
  finally have "2 powi ulpExp x * 2 ^ 52 \<le> \<bar>x\<bar>" using ilog2_bounds [OF xa] by simp
  then have "2 powi ulpExp x \<le> \<bar>x\<bar> / 2 ^ 52" by (simp add: field_simps)
  then show ?thesis by (simp add: add_increasing2)
qed

lemma fl_error: "\<bar>x - fl x\<bar> \<le> \<bar>x\<bar> / 2 ^ 53 + 1 / 2 ^ 1075"
proof (cases "x = 0")
  case True
  then show ?thesis by (simp add: fl_zero)
next
  case False
  define g :: real where "g = 2 powi ulpExp x"
  have g: "0 < g" by (simp add: g_def)
  define q where "q = x / g"
  have x: "x = q * g" using g by (simp add: q_def)
  have f: "fl x = of_int (roundHalfEven q) * g"
    using False by (simp add: fl_def q_def g_def)
  have "\<bar>x - fl x\<bar> = \<bar>q - of_int (roundHalfEven q)\<bar> * g"
    unfolding f using g by (subst x) (simp add: abs_mult flip: left_diff_distrib)
  also have "\<dots> \<le> 1 / 2 * g"
    using g roundHalfEven_half [of q] by (intro mult_right_mono) simp_all
  also have "\<dots> \<le> 1 / 2 * (\<bar>x\<bar> / 2 ^ 52 + 1 / 2 ^ 1074)"
    using ulp_bound [OF False] by (simp add: g_def)
  also have "\<dots> = \<bar>x\<bar> / 2 ^ 53 + 1 / 2 ^ 1075" by simp
  finally show ?thesis .
qed

lemma fl_error_le:
  assumes "\<bar>x\<bar> \<le> M"
  shows "\<bar>fl x - x\<bar> \<le> M * (1 / 2 ^ 53) + 1 / 2 ^ 1075"
proof -
  have "\<bar>x\<bar> / 2 ^ 53 \<le> M / 2 ^ 53" using assms by (rule divide_right_mono) simp
  with fl_error [of x] have "\<bar>x - fl x\<bar> \<le> M / 2 ^ 53 + 1 / 2 ^ 1075" by linarith
  then show ?thesis by (simp only: abs_minus_commute [of "fl x" x] times_divide_eq_right mult_1_right)
qed

lemma three_sums_error:
  fixes x y z :: real
  defines "S \<equiv> \<bar>x\<bar> + \<bar>y\<bar> + \<bar>z\<bar>"
  shows "\<bar>fl (fl (fl x + y) + z) - (x + y + z)\<bar> \<le> S / 2 ^ 51 + 1 / 2 ^ 1073"
proof -
  define u :: real where "u = 1 / 2 ^ 53"
  define h :: real where "h = 1 / 2 ^ 1075"
  define e1 where "e1 = \<bar>fl x - x\<bar>"
  define e2 where "e2 = \<bar>fl (fl x + y) - (fl x + y)\<bar>"
  define e3 where "e3 = \<bar>fl (fl (fl x + y) + z) - (fl (fl x + y) + z)\<bar>"
  have S0: "0 \<le> S" by (simp add: S_def)
  have "\<bar>x\<bar> \<le> S" by (simp add: S_def)
  from fl_error_le [OF this] have b1: "e1 \<le> S * u + h"
    unfolding e1_def u_def h_def .
  have "\<bar>fl x + y\<bar> \<le> S + e1" unfolding S_def e1_def by argo
  from fl_error_le [OF this] have b2: "e2 \<le> (S + e1) * u + h"
    unfolding e2_def u_def h_def .
  have "\<bar>fl (fl x + y) + z\<bar> \<le> S + e1 + e2" unfolding S_def e1_def e2_def by argo
  from fl_error_le [OF this] have b3: "e3 \<le> (S + e1 + e2) * u + h"
    unfolding e3_def u_def h_def .
  have tri: "\<bar>fl (fl (fl x + y) + z) - (x + y + z)\<bar> \<le> e1 + e2 + e3"
    unfolding e1_def e2_def e3_def by argo
  have u8: "u \<le> 1 / 8" by (simp add: u_def)
  have h: "0 \<le> h" by (simp add: h_def)
  have e0: "0 \<le> e1" "0 \<le> e2" by (simp_all add: e1_def e2_def)
  have e1u: "e1 * u \<le> e1 * (1 / 8)" by (rule mult_left_mono [OF u8 e0(1)])
  have e2u: "e2 * u \<le> e2 * (1 / 8)" by (rule mult_left_mono [OF u8 e0(2)])
  have b2': "e2 \<le> S * u + e1 * u + h" using b2 by (simp only: distrib_right)
  have b3': "e3 \<le> S * u + e1 * u + e2 * u + h" using b3 by (simp only: distrib_right)
  have Su: "0 \<le> S * u" using S0 by (simp add: u_def)
  have "e1 + e2 + e3 \<le> 4 * (S * u) + 4 * h"
    using b1 b2' b3' e1u e2u Su h e0 by linarith
  also have "\<dots> = S / 2 ^ 51 + 1 / 2 ^ 1073" by (simp add: u_def h_def)
  finally show ?thesis using tri by linarith
qed

lemma fl_three_tenths: "fl 0.3 = 5404319552844595 / 18014398509481984"
  by code_simp

lemma drift_update_error:
  "\<bar>fl (dc + fl (fl x * fl 0.3)) - (dc + 0.3 * x)\<bar>
     \<le> (\<bar>dc\<bar> + \<bar>x\<bar>) / 2 ^ 51 + 1 / 2 ^ 1073"
proof -
  define u :: real where "u = 1 / 2 ^ 53"
  define h :: real where "h = 1 / 2 ^ 1075"
  define K :: real where "K = fl 0.3"
  define D where "D = \<bar>x\<bar>"
  define C where "C = \<bar>dc\<bar>"
  define d1 where "d1 = fl x"
  define p where "p = fl (d1 * K)"
  define r where "r = fl (dc + p)"
  define e1 where "e1 = \<bar>d1 - x\<bar>"
  define e2 where "e2 = \<bar>p - d1 * K\<bar>"
  define e3 where "e3 = \<bar>r - (dc + p)\<bar>"
  have Kv: "K = 5404319552844595 / 18014398509481984" by (simp add: K_def fl_three_tenths)
  have K0: "0 \<le> K" and K3: "K \<le> 3 / 10" by (simp_all add: Kv)
  have Kd: "\<bar>K - 3 / 10\<bar> \<le> u * (1 / 8)" by (simp add: Kv u_def)
  have u8: "u \<le> 1 / 8" by (simp add: u_def)
  have u0: "0 \<le> u" by (simp add: u_def)
  have h0: "0 \<le> h" by (simp add: h_def)
  have D0: "0 \<le> D" and C0: "0 \<le> C" by (simp_all add: D_def C_def)
  have e0: "0 \<le> e1" "0 \<le> e2" by (simp_all add: e1_def e2_def)
  have "\<bar>x\<bar> \<le> D" by (simp add: D_def)
  from fl_error_le [OF this] have b1: "e1 \<le> D * u + h"
    unfolding e1_def d1_def u_def h_def .
  have a1: "\<bar>d1\<bar> \<le> D + e1" unfolding D_def e1_def by argo
  have "\<bar>d1 * K\<bar> = \<bar>d1\<bar> * K" using K0 by (simp add: abs_mult)
  also have "\<dots> \<le> (D + e1) * K" using a1 K0 by (rule mult_right_mono)
  also have "\<dots> \<le> (D + e1) * 1" using K3 D0 e0 by (intro mult_left_mono) simp_all
  finally have m2: "\<bar>d1 * K\<bar> \<le> D + e1" by simp
  from fl_error_le [OF m2] have b2: "e2 \<le> (D + e1) * u + h"
    unfolding e2_def p_def u_def h_def .
  have "\<bar>dc + p\<bar> \<le> C + (D + e1) + e2" using m2 unfolding C_def e2_def by argo
  from fl_error_le [OF this] have b3: "e3 \<le> (C + (D + e1) + e2) * u + h"
    unfolding e3_def r_def u_def h_def .
  define X where "X = \<bar>d1 * (K - 3 / 10)\<bar>"
  define R where "R = \<bar>r - (dc + 3 / 10 * x)\<bar>"
  have "X = \<bar>d1\<bar> * \<bar>K - 3 / 10\<bar>" by (simp add: X_def abs_mult)
  also have "\<dots> \<le> (D + e1) * \<bar>K - 3 / 10\<bar>" using a1 by (rule mult_right_mono) simp
  also have "\<dots> \<le> (D + e1) * (u * (1 / 8))" using Kd D0 e0 by (intro mult_left_mono) simp_all
  finally have b4: "X \<le> D * u * (1 / 8) + e1 * u * (1 / 8)"
    by (simp add: algebra_simps)
  have split: "r - (dc + 3 / 10 * x) =
      (r - (dc + p)) + (p - d1 * K) + d1 * (K - 3 / 10) + 3 / 10 * (d1 - x)"
    by (simp add: field_simps)
  have abs4: "\<And>a b c d :: real. \<bar>a + b + c + d\<bar> \<le> \<bar>a\<bar> + \<bar>b\<bar> + \<bar>c\<bar> + \<bar>d\<bar>"
    by linarith
  have l: "\<bar>3 / 10 * (d1 - x)\<bar> = 3 / 10 * e1"
    unfolding e1_def by (subst abs_mult) simp
  have tri: "R \<le> e3 + e2 + X + 3 / 10 * e1"
    unfolding R_def X_def split e2_def e3_def l [symmetric] by (rule abs4)
  define a where "a = D * u"
  define b where "b = C * u"
  define f1 where "f1 = e1 * u"
  define f2 where "f2 = e2 * u"
  have e1u: "f1 \<le> e1 / 8"
    using mult_left_mono [OF u8 e0(1)] by (simp add: f1_def)
  have e2u: "f2 \<le> e2 / 8"
    using mult_left_mono [OF u8 e0(2)] by (simp add: f2_def)
  have b1': "e1 \<le> a + h" using b1 by (simp add: a_def)
  have b2': "e2 \<le> a + f1 + h" using b2 by (simp add: a_def f1_def distrib_right)
  have b3': "e3 \<le> b + a + f1 + f2 + h"
    using b3 by (simp add: a_def b_def f1_def f2_def distrib_right)
  have b4': "X \<le> a / 8 + f1 / 8" using b4 by (simp add: a_def f1_def)
  have a0: "0 \<le> a" and b0: "0 \<le> b" using D0 C0 u0 by (simp_all add: a_def b_def)
  have s2: "e2 \<le> 9 / 8 * a + 9 / 8 * h" using b1' b2' e1u by linarith
  have s3: "e3 \<le> b + 3 / 2 * a + 3 / 2 * h" using b1' b3' e1u e2u s2 a0 h0 by linarith
  have s4: "X \<le> a / 4 + h / 4" using b1' b4' e1u a0 h0 by linarith
  have "R \<le> 4 * (b + a) + 4 * h"
    using tri s2 s3 s4 b1' a0 b0 h0 by argo
  also have "\<dots> = (C + D) / 2 ^ 51 + 1 / 2 ^ 1073"
    by (simp add: a_def b_def u_def h_def algebra_simps)
  finally show ?thesis
    by (simp add: R_def r_def p_def d1_def K_def C_def D_def)
qed

lemma isDouble_fl: "isDouble (fl x)"
  by (simp add: isDouble_def fl_fl)

lemma isDouble_zero: "isDouble 0"
  by (simp add: isDouble_def fl_zero)

section \<open>Theorems about the secondary clock\<close>

text \<open>
  C2. The claim that \<open>correctDrift\<close> leaves \<open>driftCorrection\<close> unchanged up to an absolute
  drift of 0.2 and otherwise changes it by exactly 0.3 times the drift fails in double
  arithmetic. For the doubles 0.9 and 0.7 the drift is above 0.2 and the correction is
  neither 0.3 times the drift nor the double 0.3 times the drift (and for the decimal
  numbers 0.9 and 0.7 themselves the claim would leave \<open>driftCorrection\<close> unchanged); for
  the double 0.2, which is above the number 0.2, there is no correction.
\<close>

theorem correctDrift_exact_counterexample:
  "\<bar>fl 0.9 - fl 0.7\<bar> > 0.2 \<and> \<bar>(0.9::real) - 0.7\<bar> \<le> 0.2 \<and>
   driftCorrection (correctDrift (fl 0.9) (fl 0.7) readyEngine) =
     8646911284551355 / 144115188075855872 \<and>
   driftCorrection readyEngine + 0.3 * (fl 0.9 - fl 0.7) \<noteq>
     8646911284551355 / 144115188075855872 \<and>
   driftCorrection readyEngine + fl 0.3 * (fl 0.9 - fl 0.7) \<noteq>
     8646911284551355 / 144115188075855872 \<and>
   driftCorrection readyEngine = 0 \<and>
   \<bar>fl 0.2 - 0\<bar> > 0.2 \<and>
   driftCorrection (correctDrift (fl 0.2) 0 readyEngine) = driftCorrection readyEngine"
  by code_simp

text \<open>
  C2, amended. \<open>correctDrift(authoritative, estimated)\<close> computes the drift as the double
  nearest to \<open>authoritative - estimated\<close>. It leaves \<open>driftCorrection\<close> unchanged when
  that drift is at most the double 0.2 in absolute value, which is so whenever
  \<open>\<bar>authoritative - estimated\<bar>\<close> is at most the double 0.2. Otherwise, and that is so
  whenever \<open>\<bar>authoritative - estimated\<bar>\<close> is at least the next double after 0.2, the new
  \<open>driftCorrection\<close> is the double nearest to the old one plus the double nearest to
  the drift times the double 0.3; this is the old \<open>driftCorrection\<close> plus
  \<open>0.3 * (authoritative - estimated)\<close> up to a rounding error of at most
  \<open>(\<bar>driftCorrection\<bar> + \<bar>authoritative - estimated\<bar>) / 2 ^ 51 + 2 ^ - 1073\<close>.
\<close>

theorem correctDrift_threshold:
  "(\<bar>fl (a - s)\<bar> \<le> fl 0.2 \<longrightarrow> driftCorrection (correctDrift a s e) = driftCorrection e) \<and>
   (\<bar>fl (a - s)\<bar> > fl 0.2 \<longrightarrow>
      driftCorrection (correctDrift a s e) =
        fl (driftCorrection e + fl (fl (a - s) * fl 0.3))) \<and>
   (\<bar>a - s\<bar> \<le> fl 0.2 \<longrightarrow> driftCorrection (correctDrift a s e) = driftCorrection e) \<and>
   (\<bar>a - s\<bar> \<ge> fl 0.2 + 1 / 2 ^ 55 \<longrightarrow>
      driftCorrection (correctDrift a s e) =
        fl (driftCorrection e + fl (fl (a - s) * fl 0.3))) \<and>
   (\<bar>fl (a - s)\<bar> > fl 0.2 \<longrightarrow>
      \<bar>driftCorrection (correctDrift a s e) - (driftCorrection e + 0.3 * (a - s))\<bar>
        \<le> (\<bar>driftCorrection e\<bar> + \<bar>a - s\<bar>) / 2 ^ 51 + 1 / 2 ^ 1073)"
proof -
  have t: "fl (fl 0.2) = fl 0.2" by (rule fl_fl)
  have n: "fl (fl 0.2 + 1 / 2 ^ 55) = fl 0.2 + 1 / 2 ^ 55" by code_simp
  have 3: "\<bar>a - s\<bar> \<le> fl 0.2 \<longrightarrow> \<bar>fl (a - s)\<bar> \<le> fl 0.2"
    using fl_abs_le [OF _ t] by blast
  have 4: "\<bar>a - s\<bar> \<ge> fl 0.2 + 1 / 2 ^ 55 \<longrightarrow> \<bar>fl (a - s)\<bar> > fl 0.2"
  proof
    assume "\<bar>a - s\<bar> \<ge> fl 0.2 + 1 / 2 ^ 55"
    then have "fl 0.2 + 1 / 2 ^ 55 \<le> \<bar>fl (a - s)\<bar>" by (rule fl_abs_ge) (rule n)
    then show "\<bar>fl (a - s)\<bar> > fl 0.2" by simp
  qed
  have 1: "\<bar>fl (a - s)\<bar> \<le> fl 0.2 \<longrightarrow>
      driftCorrection (correctDrift a s e) = driftCorrection e"
    by (simp add: correctDrift_def Let_def)
  have 2: "\<bar>fl (a - s)\<bar> > fl 0.2 \<longrightarrow>
      driftCorrection (correctDrift a s e) =
        fl (driftCorrection e + fl (fl (a - s) * fl 0.3))"
    by (simp add: correctDrift_def Let_def)
  have 5: "\<bar>fl (a - s)\<bar> > fl 0.2 \<longrightarrow>
      \<bar>driftCorrection (correctDrift a s e) - (driftCorrection e + 0.3 * (a - s))\<bar>
        \<le> (\<bar>driftCorrection e\<bar> + \<bar>a - s\<bar>) / 2 ^ 51 + 1 / 2 ^ 1073"
    using 2 drift_update_error [of "driftCorrection e" "a - s"] by simp
  from 1 2 3 4 5 show ?thesis by blast
qed

theorem correctDrift_threshold_witness:
  "\<bar>fl (fl 0.2 - 0)\<bar> \<le> fl 0.2 \<and> \<bar>fl 0.2 - 0\<bar> \<le> fl 0.2 \<and>
   driftCorrection (correctDrift (fl 0.2) 0 playingEngine) = driftCorrection playingEngine \<and>
   \<bar>fl (fl 0.9 - fl 0.7)\<bar> > fl 0.2 \<and> \<bar>fl 0.9 - fl 0.7\<bar> \<ge> fl 0.2 + 1 / 2 ^ 55 \<and>
   driftCorrection (correctDrift (fl 0.9) (fl 0.7) playingEngine) =
     fl (driftCorrection playingEngine + fl (fl (fl 0.9 - fl 0.7) * fl 0.3)) \<and>
   fl (driftCorrection playingEngine + fl (fl (fl 0.9 - fl 0.7) * fl 0.3)) =
     3242591731706757 / 9007199254740992 \<and>
   \<bar>driftCorrection (correctDrift (fl 0.9) (fl 0.7) playingEngine) -
      (driftCorrection playingEngine + 0.3 * (fl 0.9 - fl 0.7))\<bar>
     \<le> (\<bar>driftCorrection playingEngine\<bar> + \<bar>fl 0.9 - fl 0.7\<bar>) / 2 ^ 51 + 1 / 2 ^ 1073"
proof -
  have h1: "\<bar>fl (fl 0.2 - 0)\<bar> \<le> fl 0.2" and h2: "\<bar>fl 0.2 - 0\<bar> \<le> fl 0.2"
    and h3: "\<bar>fl (fl 0.9 - fl 0.7)\<bar> > fl 0.2"
    and h4: "\<bar>fl 0.9 - fl 0.7\<bar> \<ge> fl 0.2 + 1 / 2 ^ 55"
    by code_simp+
  have v: "fl (driftCorrection playingEngine + fl (fl (fl 0.9 - fl 0.7) * fl 0.3)) =
     3242591731706757 / 9007199254740992"
    by code_simp
  note A = correctDrift_threshold [of "fl 0.2" 0 playingEngine]
  note B = correctDrift_threshold [of "fl 0.9" "fl 0.7" playingEngine]
  from A h1 have a: "driftCorrection (correctDrift (fl 0.2) 0 playingEngine) =
      driftCorrection playingEngine" by blast
  from B h3 have b: "driftCorrection (correctDrift (fl 0.9) (fl 0.7) playingEngine) =
      fl (driftCorrection playingEngine + fl (fl (fl 0.9 - fl 0.7) * fl 0.3))" by blast
  from B h3 have c: "\<bar>driftCorrection (correctDrift (fl 0.9) (fl 0.7) playingEngine) -
      (driftCorrection playingEngine + 0.3 * (fl 0.9 - fl 0.7))\<bar>
     \<le> (\<bar>driftCorrection playingEngine\<bar> + \<bar>fl 0.9 - fl 0.7\<bar>) / 2 ^ 51 + 1 / 2 ^ 1073"
    by blast
  from h1 h2 h3 h4 v a b c show ?thesis by blast
qed

text \<open>
  C10. \<open>correctDrift\<close> changes at most \<open>driftCorrection\<close>: the epoch \<open>startTime\<close>, the
  frozen position \<open>pausedTime\<close> and the audio context are the same after every call.
\<close>

theorem correctDrift_frame:
  "startTime (correctDrift a s e) = startTime e \<and>
   pausedTime (correctDrift a s e) = pausedTime e \<and>
   audioContext (correctDrift a s e) = audioContext e"
  by (simp add: correctDrift_def Let_def)

text \<open>
  C3. The claim that the estimate equals \<open>T\<close> right after \<open>start(T)\<close> in every clock
  state fails: the estimate also adds \<open>pausedTime\<close> and \<open>driftCorrection\<close>, and its
  subtractions round. After \<open>pause(5)\<close> at context time 5, \<open>start(5)\<close> gives the
  estimate 10; after a drift correction by the double 0.3, \<open>start(5)\<close> gives the double
  5.3; at the context time 100.7, \<open>start(5.3)\<close> on a fresh engine gives
  5.299999999999997, which is not the double 5.3.
\<close>

theorem start_estimate_counterexample:
  "map_sum id getAccurateTime (start 5 (pause 5 (audioClockAdvance 5 readyEngine))) = Inr 10 \<and>
   map_sum id getAccurateTime (start 5 (correctDrift 1 0 readyEngine)) =
     Inr (5967269506265907 / 1125899906842624) \<and>
   map_sum id getAccurateTime (start (fl 5.3) (audioClockAdvance (fl 100.7) readyEngine)) =
     Inr (372954344141619 / 70368744177664) \<and>
   fl 5.3 = 5967269506265907 / 1125899906842624"
  by code_simp

text \<open>
  C3, amended. With an audio context and no paused position recorded (\<open>pausedTime = 0\<close>),
  \<open>start(T)\<close> for a double \<open>T\<close> succeeds and stores the double nearest to \<open>c - T\<close>,
  where \<open>c\<close> is the context time. At the same audio-context instant the clock part of the
  estimate, \<open>c - startTime\<close> rounded, is \<open>T\<close> up to a rounding error of at most
  \<open>\<bar>c - T\<bar> / 2 ^ 52 + 2 ^ - 1074\<close>, and the estimate is the double nearest to that plus
  \<open>driftCorrection\<close>, floored at 0: with no drift correction and \<open>T\<close> not negative the
  estimate is \<open>T\<close> up to that error. When the subtraction \<open>c - T\<close> is exact, the estimate
  is the double nearest to \<open>T + driftCorrection\<close>, floored at 0, and it is \<open>T\<close> itself
  when \<open>T\<close> is not negative and no drift correction has accumulated.
\<close>

theorem start_estimate:
  assumes "audioContext e = Some c" and "pausedTime e = 0" and "isDouble T"
  shows "start T e = Inr (e\<lparr>startTime := fl (c - T)\<rparr>) \<and>
         getAccurateTime (e\<lparr>startTime := fl (c - T)\<rparr>) =
           max 0 (fl (fl (c - fl (c - T)) + driftCorrection e)) \<and>
         \<bar>fl (c - fl (c - T)) - T\<bar> \<le> \<bar>c - T\<bar> / 2 ^ 52 + 1 / 2 ^ 1074 \<and>
         (0 \<le> T \<and> driftCorrection e = 0 \<longrightarrow>
            \<bar>getAccurateTime (e\<lparr>startTime := fl (c - T)\<rparr>) - T\<bar>
              \<le> \<bar>c - T\<bar> / 2 ^ 52 + 1 / 2 ^ 1074) \<and>
         (isDouble (c - T) \<longrightarrow>
            getAccurateTime (e\<lparr>startTime := fl (c - T)\<rparr>) =
              max 0 (fl (T + driftCorrection e))) \<and>
         (isDouble (c - T) \<and> 0 \<le> T \<and> driftCorrection e = 0 \<longrightarrow>
            getAccurateTime (e\<lparr>startTime := fl (c - T)\<rparr>) = T)"
proof -
  define st where "st = fl (c - T)"
  define w where "w = fl (c - st)"
  have T: "fl T = T" using assms(3) by (simp add: isDouble_def)
  have 1: "start T e = Inr (e\<lparr>startTime := st\<rparr>)"
    using assms(1) by (simp add: start_def st_def)
  have 2: "getAccurateTime (e\<lparr>startTime := st\<rparr>) = max 0 (fl (w + driftCorrection e))"
    using assms(1,2) by (simp add: getAccurateTime_def Let_def w_def fl_fl)
  have eps: "\<bar>(c - T) - st\<bar> \<le> \<bar>c - T\<bar> / 2 ^ 53 + 1 / 2 ^ 1075"
    unfolding st_def by (rule fl_error)
  have "\<bar>(c - st) - w\<bar> \<le> \<bar>(c - st) - T\<bar>"
    unfolding w_def by (rule fl_nearest) (rule T)
  then have "\<bar>w - T\<bar> \<le> 2 * \<bar>(c - T) - st\<bar>" by argo
  with eps have 3: "\<bar>w - T\<bar> \<le> \<bar>c - T\<bar> / 2 ^ 52 + 1 / 2 ^ 1074" by simp
  have ww: "fl w = w" by (simp add: w_def fl_fl)
  have 4: "0 \<le> T \<and> driftCorrection e = 0 \<longrightarrow>
      \<bar>getAccurateTime (e\<lparr>startTime := st\<rparr>) - T\<bar> \<le> \<bar>c - T\<bar> / 2 ^ 52 + 1 / 2 ^ 1074"
  proof
    assume a: "0 \<le> T \<and> driftCorrection e = 0"
    then have "getAccurateTime (e\<lparr>startTime := st\<rparr>) = max 0 w" using 2 by (simp add: ww)
    moreover have "\<bar>max 0 w - T\<bar> \<le> \<bar>w - T\<bar>" using a by (simp add: max_def)
    ultimately show "\<bar>getAccurateTime (e\<lparr>startTime := st\<rparr>) - T\<bar>
        \<le> \<bar>c - T\<bar> / 2 ^ 52 + 1 / 2 ^ 1074"
      using 3 by simp
  qed
  have wT: "isDouble (c - T) \<Longrightarrow> w = T"
    by (simp add: w_def st_def isDouble_def T)
  have 5: "isDouble (c - T) \<longrightarrow>
      getAccurateTime (e\<lparr>startTime := st\<rparr>) = max 0 (fl (T + driftCorrection e))"
    using 2 wT by simp
  have 6: "isDouble (c - T) \<and> 0 \<le> T \<and> driftCorrection e = 0 \<longrightarrow>
      getAccurateTime (e\<lparr>startTime := st\<rparr>) = T"
    using 5 by (simp add: T)
  from 1 2 3 4 5 6 show ?thesis unfolding w_def st_def by blast
qed

theorem start_estimate_witness:
  "audioContext playingEngine = Some 100.5 \<and> pausedTime playingEngine = 0 \<and>
   isDouble 5.25 \<and> isDouble (100.5 - 5.25) \<and>
   start 5.25 playingEngine = Inr (playingEngine\<lparr>startTime := fl (100.5 - 5.25)\<rparr>) \<and>
   getAccurateTime (playingEngine\<lparr>startTime := fl (100.5 - 5.25)\<rparr>) =
     max 0 (fl (5.25 + driftCorrection playingEngine)) \<and>
   max 0 (fl (5.25 + driftCorrection playingEngine)) = 6248744482976563 / 1125899906842624 \<and>
   (0::real) \<le> 5.25 \<and> driftCorrection (playingEngine\<lparr>driftCorrection := 0\<rparr>) = 0 \<and>
   getAccurateTime (playingEngine\<lparr>driftCorrection := 0, startTime := fl (100.5 - 5.25)\<rparr>) = 5.25 \<and>
   audioContext (audioClockAdvance (fl 100.7) readyEngine) = Some (fl 100.7) \<and>
   pausedTime (audioClockAdvance (fl 100.7) readyEngine) = 0 \<and>
   isDouble (fl 5.3) \<and> 0 \<le> fl 5.3 \<and>
   driftCorrection (audioClockAdvance (fl 100.7) readyEngine) = 0 \<and>
   \<bar>getAccurateTime
      (audioClockAdvance (fl 100.7) readyEngine\<lparr>startTime := fl (fl 100.7 - fl 5.3)\<rparr>) - fl 5.3\<bar>
     \<le> \<bar>fl 100.7 - fl 5.3\<bar> / 2 ^ 52 + 1 / 2 ^ 1074"
proof -
  have c: "audioContext playingEngine = Some 100.5" and p: "pausedTime playingEngine = 0"
    by (simp_all add: playingEngine_def)
  have c': "audioContext (playingEngine\<lparr>driftCorrection := 0\<rparr>) = Some 100.5"
    and p': "pausedTime (playingEngine\<lparr>driftCorrection := 0\<rparr>) = 0"
    and d': "driftCorrection (playingEngine\<lparr>driftCorrection := 0\<rparr>) = 0"
    by (simp_all add: playingEngine_def)
  have c'': "audioContext (audioClockAdvance (fl 100.7) readyEngine) = Some (fl 100.7)"
    and p'': "pausedTime (audioClockAdvance (fl 100.7) readyEngine) = 0"
    and d'': "driftCorrection (audioClockAdvance (fl 100.7) readyEngine) = 0"
    by (simp_all add: audioClockAdvance_def readyEngine_def init_def newAudioSyncEngine_def)
  have i1: "isDouble 5.25" and i2: "isDouble (100.5 - 5.25)" by code_simp+
  have i3: "isDouble (fl 5.3)" by (rule isDouble_fl)
  have t0: "(0::real) \<le> 5.25" by simp
  have t1: "0 \<le> fl 5.3" by code_simp
  have v: "max 0 (fl (5.25 + driftCorrection playingEngine)) =
      6248744482976563 / 1125899906842624"
    by code_simp
  note A = start_estimate [OF c p i1]
  note B = start_estimate [OF c' p' i1]
  note C = start_estimate [OF c'' p'' i3]
  from A have a1: "start 5.25 playingEngine = Inr (playingEngine\<lparr>startTime := fl (100.5 - 5.25)\<rparr>)"
    by blast
  from A i2 have a2: "getAccurateTime (playingEngine\<lparr>startTime := fl (100.5 - 5.25)\<rparr>) =
      max 0 (fl (5.25 + driftCorrection playingEngine))"
    by blast
  from B i2 t0 d' have b1: "getAccurateTime
      (playingEngine\<lparr>driftCorrection := 0, startTime := fl (100.5 - 5.25)\<rparr>) = 5.25"
    by blast
  from C t1 d'' have c1: "\<bar>getAccurateTime
      (audioClockAdvance (fl 100.7) readyEngine\<lparr>startTime := fl (fl 100.7 - fl 5.3)\<rparr>) - fl 5.3\<bar>
     \<le> \<bar>fl 100.7 - fl 5.3\<bar> / 2 ^ 52 + 1 / 2 ^ 1074"
    by blast
  from c p i1 i2 a1 a2 v t0 d' b1 c'' p'' i3 t1 d'' c1 show ?thesis by blast
qed

text \<open>
  C4. The claim that \<open>getAccurateTime\<close> stays the same after \<open>pause(T)\<close> while the audio
  context's clock advances fails: \<open>pause\<close> only stores \<open>T\<close>, and the estimate goes on
  following the context's clock (5 right after \<open>pause(5)\<close>, 6 one second later).
\<close>

theorem pause_not_frozen_counterexample:
  "getAccurateTime (pause 5 readyEngine) = 5 \<and>
   getAccurateTime (audioClockAdvance 1 (pause 5 readyEngine)) = 6"
  by code_simp

text \<open>
  C4, amended. \<open>pause(T)\<close> sets \<open>pausedTime\<close> to \<open>T\<close> and changes no other field; the
  estimate is not frozen: it never decreases while the audio context's clock advances,
  and while it is positive it grows by the time \<open>d\<close> by which the clock advances, from the
  reading \<open>c\<close> to \<open>c + d\<close>, up to a rounding error of at most
  \<open>(\<bar>c - startTime\<bar> + \<bar>c + d - startTime\<bar> + 2 \<bar>T\<bar> + 2 \<bar>driftCorrection\<bar>) / 2 ^ 51
  + 2 ^ - 1072\<close>, and by exactly \<open>d\<close> whenever its sums are exact before and after.
\<close>

theorem pause_sets_pausedTime:
  "pausedTime (pause T e) = T \<and> startTime (pause T e) = startTime e \<and>
   driftCorrection (pause T e) = driftCorrection e \<and>
   audioContext (pause T e) = audioContext e \<and>
   (0 \<le> d \<longrightarrow>
      getAccurateTime (pause T e) \<le> getAccurateTime (audioClockAdvance d (pause T e))) \<and>
   (audioContext e = Some c \<and> 0 \<le> d \<and> 0 < getAccurateTime (pause T e) \<longrightarrow>
      \<bar>getAccurateTime (audioClockAdvance d (pause T e)) - (getAccurateTime (pause T e) + d)\<bar>
        \<le> (\<bar>c - startTime e\<bar> + \<bar>c + d - startTime e\<bar> + 2 * \<bar>T\<bar> +
            2 * \<bar>driftCorrection e\<bar>) / 2 ^ 51 + 1 / 2 ^ 1072) \<and>
   (0 \<le> d \<and> 0 < getAccurateTime (pause T e) \<and>
    exactReading (pause T e) \<and> exactReading (audioClockAdvance d (pause T e)) \<longrightarrow>
      getAccurateTime (audioClockAdvance d (pause T e)) = getAccurateTime (pause T e) + d)"
proof -
  have frame: "pausedTime (pause T e) = T \<and> startTime (pause T e) = startTime e \<and>
      driftCorrection (pause T e) = driftCorrection e \<and>
      audioContext (pause T e) = audioContext e"
    by (simp add: pause_def)
  have mono: "0 \<le> d \<longrightarrow>
      getAccurateTime (pause T e) \<le> getAccurateTime (audioClockAdvance d (pause T e))"
  proof (cases "audioContext e")
    case None
    then show ?thesis by (simp add: getAccurateTime_def audioClockAdvance_def pause_def)
  next
    case (Some c)
    show ?thesis
    proof
      assume d: "0 \<le> d"
      then have "fl (c - startTime e) \<le> fl (c + d - startTime e)" by (intro fl_mono) simp
      then have "fl (fl (c - startTime e) + T) \<le> fl (fl (c + d - startTime e) + T)"
        by (intro fl_mono) simp
      then have "fl (fl (fl (c - startTime e) + T) + driftCorrection e)
          \<le> fl (fl (fl (c + d - startTime e) + T) + driftCorrection e)"
        by (intro fl_mono) simp
      then show "getAccurateTime (pause T e) \<le> getAccurateTime (audioClockAdvance d (pause T e))"
        using Some by (simp add: getAccurateTime_def audioClockAdvance_def pause_def Let_def)
    qed
  qed
  have bound: "audioContext e = Some c \<and> 0 \<le> d \<and> 0 < getAccurateTime (pause T e) \<longrightarrow>
      \<bar>getAccurateTime (audioClockAdvance d (pause T e)) - (getAccurateTime (pause T e) + d)\<bar>
        \<le> (\<bar>c - startTime e\<bar> + \<bar>c + d - startTime e\<bar> + 2 * \<bar>T\<bar> +
            2 * \<bar>driftCorrection e\<bar>) / 2 ^ 51 + 1 / 2 ^ 1072"
  proof
    assume a: "audioContext e = Some c \<and> 0 \<le> d \<and> 0 < getAccurateTime (pause T e)"
    define r1 where "r1 = fl (fl (fl (c - startTime e) + T) + driftCorrection e)"
    define r2 where "r2 = fl (fl (fl (c + d - startTime e) + T) + driftCorrection e)"
    have g1: "getAccurateTime (pause T e) = max 0 r1"
      using a by (simp add: getAccurateTime_def pause_def Let_def r1_def)
    have g2: "getAccurateTime (audioClockAdvance d (pause T e)) = max 0 r2"
      using a by (simp add: getAccurateTime_def audioClockAdvance_def pause_def Let_def r2_def)
    from a g1 have p1: "0 < r1" by (simp add: max_def split: if_splits)
    from mono a g1 g2 have "max 0 r1 \<le> max 0 r2" by simp
    with p1 have p2: "0 < r2" by (simp add: max_def split: if_splits)
    have m1: "max 0 r1 = r1" and m2: "max 0 r2 = r2" using p1 p2 by simp_all
    have e1: "\<bar>r1 - (c - startTime e + T + driftCorrection e)\<bar>
        \<le> (\<bar>c - startTime e\<bar> + \<bar>T\<bar> + \<bar>driftCorrection e\<bar>) / 2 ^ 51 + 1 / 2 ^ 1073"
      unfolding r1_def by (rule three_sums_error)
    have e2: "\<bar>r2 - (c + d - startTime e + T + driftCorrection e)\<bar>
        \<le> (\<bar>c + d - startTime e\<bar> + \<bar>T\<bar> + \<bar>driftCorrection e\<bar>) / 2 ^ 51 + 1 / 2 ^ 1073"
      unfolding r2_def by (rule three_sums_error)
    have s: "(\<bar>c - startTime e\<bar> + \<bar>T\<bar> + \<bar>driftCorrection e\<bar>) / 2 ^ 51 + 1 / 2 ^ 1073 +
        ((\<bar>c + d - startTime e\<bar> + \<bar>T\<bar> + \<bar>driftCorrection e\<bar>) / 2 ^ 51 + 1 / 2 ^ 1073) =
        (\<bar>c - startTime e\<bar> + \<bar>c + d - startTime e\<bar> + 2 * \<bar>T\<bar> +
            2 * \<bar>driftCorrection e\<bar>) / 2 ^ 51 + 1 / 2 ^ 1072"
      by (simp add: field_simps)
    have "\<bar>r2 - (r1 + d)\<bar>
        \<le> \<bar>r2 - (c + d - startTime e + T + driftCorrection e)\<bar> +
           \<bar>r1 - (c - startTime e + T + driftCorrection e)\<bar>"
      by argo
    with e1 e2 have "\<bar>r2 - (r1 + d)\<bar>
        \<le> (\<bar>c - startTime e\<bar> + \<bar>T\<bar> + \<bar>driftCorrection e\<bar>) / 2 ^ 51 + 1 / 2 ^ 1073 +
        ((\<bar>c + d - startTime e\<bar> + \<bar>T\<bar> + \<bar>driftCorrection e\<bar>) / 2 ^ 51 + 1 / 2 ^ 1073)"
      by linarith
    then show "\<bar>getAccurateTime (audioClockAdvance d (pause T e)) -
        (getAccurateTime (pause T e) + d)\<bar>
        \<le> (\<bar>c - startTime e\<bar> + \<bar>c + d - startTime e\<bar> + 2 * \<bar>T\<bar> +
            2 * \<bar>driftCorrection e\<bar>) / 2 ^ 51 + 1 / 2 ^ 1072"
      unfolding g1 g2 m1 m2 s .
  qed
  have exact: "0 \<le> d \<and> 0 < getAccurateTime (pause T e) \<and>
      exactReading (pause T e) \<and> exactReading (audioClockAdvance d (pause T e)) \<longrightarrow>
      getAccurateTime (audioClockAdvance d (pause T e)) = getAccurateTime (pause T e) + d"
    by (auto simp add: getAccurateTime_def audioClockAdvance_def pause_def exactReading_def
        isDouble_def Let_def split: option.splits)
  from frame mono bound exact show ?thesis by blast
qed

theorem pause_sets_pausedTime_witness:
  "(0::real) \<le> 0.5 \<and>
   audioContext (playingEngine\<lparr>driftCorrection := 0.125\<rparr>) = Some 100.5 \<and>
   0 < getAccurateTime (pause 5.25 (playingEngine\<lparr>driftCorrection := 0.125\<rparr>)) \<and>
   exactReading (pause 5.25 (playingEngine\<lparr>driftCorrection := 0.125\<rparr>)) \<and>
   exactReading (audioClockAdvance 0.5 (pause 5.25 (playingEngine\<lparr>driftCorrection := 0.125\<rparr>))) \<and>
   pausedTime (pause 5.25 (playingEngine\<lparr>driftCorrection := 0.125\<rparr>)) = 5.25 \<and>
   getAccurateTime (pause 5.25 (playingEngine\<lparr>driftCorrection := 0.125\<rparr>)) = 105.625 \<and>
   getAccurateTime (audioClockAdvance 0.5 (pause 5.25 (playingEngine\<lparr>driftCorrection := 0.125\<rparr>))) =
     106.125 \<and>
   audioContext playingEngine = Some 100.5 \<and>
   0 < getAccurateTime (pause (fl 5.3) playingEngine) \<and>
   getAccurateTime (pause (fl 5.3) playingEngine) \<le>
     getAccurateTime (audioClockAdvance 0.5 (pause (fl 5.3) playingEngine)) \<and>
   \<bar>getAccurateTime (audioClockAdvance 0.5 (pause (fl 5.3) playingEngine)) -
      (getAccurateTime (pause (fl 5.3) playingEngine) + 0.5)\<bar>
     \<le> (\<bar>100.5 - startTime playingEngine\<bar> + \<bar>100.5 + 0.5 - startTime playingEngine\<bar> +
         2 * \<bar>fl 5.3\<bar> + 2 * \<bar>driftCorrection playingEngine\<bar>) / 2 ^ 51 + 1 / 2 ^ 1072"
proof -
  have d0: "(0::real) \<le> 0.5" by simp
  have c1: "audioContext (playingEngine\<lparr>driftCorrection := 0.125\<rparr>) = Some 100.5"
    and c2: "audioContext playingEngine = Some 100.5"
    and s1: "startTime (playingEngine\<lparr>driftCorrection := 0.125\<rparr>) = startTime playingEngine"
    by (simp_all add: playingEngine_def)
  have g: "getAccurateTime (pause 5.25 (playingEngine\<lparr>driftCorrection := 0.125\<rparr>)) = 105.625"
    by code_simp
  have g': "0 < getAccurateTime (pause (fl 5.3) playingEngine)" by code_simp
  have x1: "exactReading (pause 5.25 (playingEngine\<lparr>driftCorrection := 0.125\<rparr>))"
    and x2: "exactReading
      (audioClockAdvance 0.5 (pause 5.25 (playingEngine\<lparr>driftCorrection := 0.125\<rparr>)))"
    by code_simp+
  note A = pause_sets_pausedTime
    [of "5.25" "playingEngine\<lparr>driftCorrection := 0.125\<rparr>" "0.5" "100.5"]
  note B = pause_sets_pausedTime [of "fl 5.3" playingEngine "0.5" "100.5"]
  from A have a1: "pausedTime (pause 5.25 (playingEngine\<lparr>driftCorrection := 0.125\<rparr>)) = 5.25"
    by blast
  from A d0 g x1 x2 have a2: "getAccurateTime
      (audioClockAdvance 0.5 (pause 5.25 (playingEngine\<lparr>driftCorrection := 0.125\<rparr>))) = 106.125"
    by simp
  from B d0 have b1: "getAccurateTime (pause (fl 5.3) playingEngine) \<le>
     getAccurateTime (audioClockAdvance 0.5 (pause (fl 5.3) playingEngine))"
    by blast
  from B c2 d0 g' have b2: "\<bar>getAccurateTime (audioClockAdvance 0.5 (pause (fl 5.3) playingEngine)) -
      (getAccurateTime (pause (fl 5.3) playingEngine) + 0.5)\<bar>
     \<le> (\<bar>100.5 - startTime playingEngine\<bar> + \<bar>100.5 + 0.5 - startTime playingEngine\<bar> +
         2 * \<bar>fl 5.3\<bar> + 2 * \<bar>driftCorrection playingEngine\<bar>) / 2 ^ 51 + 1 / 2 ^ 1072"
    by blast
  from d0 c1 c2 g g' x1 x2 a1 a2 b1 b2 show ?thesis by simp
qed

section \<open>Theorems about the lyric lookup\<close>

lemma scanSyncedLyrics_none:
  "(\<forall>j<k. q < time (ls ! j)) \<Longrightarrow> scanSyncedLyrics q ls k = - 1"
  by (induction k) (auto simp: less_Suc_eq)

lemma scanSyncedLyrics_hit:
  "i < k \<Longrightarrow> time (ls ! i) \<le> q \<Longrightarrow> (\<forall>j. i < j \<and> j < k \<longrightarrow> q < time (ls ! j))
   \<Longrightarrow> scanSyncedLyrics q ls k = int i"
proof (induction k)
  case 0
  then show ?case by simp
next
  case (Suc k)
  show ?case
  proof (cases "i = k")
    case True
    with Suc.prems show ?thesis by simp
  next
    case False
    with Suc.prems have ik: "i < k" by simp
    from Suc.prems ik have "q < time (ls ! k)" by simp
    moreover have "scanSyncedLyrics q ls k = int i"
      using Suc.IH ik Suc.prems by simp
    ultimately show ?thesis by simp
  qed
qed

text \<open>
  The scan of the App is the scan of app.js over the same lines with every time replaced
  by the threshold that the App computes from it, the double nearest to \<open>time - 0.1\<close>.
\<close>

lemma scanLines_thresholds:
  "k \<le> length ls \<Longrightarrow>
   scanLines q ls k =
     scanSyncedLyrics q (map (\<lambda>e. e\<lparr>time := fl (time e - fl 0.1)\<rparr>) ls) k"
  by (induction k) simp_all

lemma syncLyricsToTime_index:
  "hasSyncedLyrics s \<Longrightarrow> syncedLyrics s \<noteq> [] \<Longrightarrow>
   currentLineIndex (syncLyricsToTime q s) =
     scanSyncedLyrics q (syncedLyrics s) (length (syncedLyrics s))"
  by (simp add: syncLyricsToTime_def Let_def)

lemma currentLine_playBeep: "currentLine (playBeep a) = currentLine a"
  by (simp add: playBeep_def split: option.splits)

lemma syncLyrics_index:
  "lyrics a = Some ld \<Longrightarrow>
   currentLine (syncLyrics q a) = scanLines q (lines ld) (length (lines ld))"
  by (simp add: syncLyrics_def Let_def currentLine_playBeep)

lemma sorted_times_nth:
  "sorted (map time ls) \<Longrightarrow> i \<le> j \<Longrightarrow> j < length ls \<Longrightarrow> time (ls ! i) \<le> time (ls ! j)"
  using sorted_nth_mono [of "map time ls" i j] by simp

lemma lookup_sorted:
  assumes ne: "ls \<noteq> []" and st: "sorted (map time ls)"
  shows "(q < time (ls ! 0) \<longrightarrow> scanSyncedLyrics q ls (length ls) = - 1) \<and>
         (\<forall>i. Suc i < length ls \<and> time (ls ! i) \<le> q \<and> q < time (ls ! Suc i) \<longrightarrow>
              scanSyncedLyrics q ls (length ls) = int i) \<and>
         (time (ls ! (length ls - 1)) \<le> q \<longrightarrow>
              scanSyncedLyrics q ls (length ls) = int (length ls - 1))"
proof (intro conjI impI allI)
  assume q: "q < time (ls ! 0)"
  have "\<forall>j<length ls. q < time (ls ! j)"
  proof (intro allI impI)
    fix j assume j: "j < length ls"
    have "time (ls ! 0) \<le> time (ls ! j)" using sorted_times_nth [OF st _ j] by simp
    with q show "q < time (ls ! j)" by simp
  qed
  then show "scanSyncedLyrics q ls (length ls) = - 1" by (rule scanSyncedLyrics_none)
next
  fix i assume a: "Suc i < length ls \<and> time (ls ! i) \<le> q \<and> q < time (ls ! Suc i)"
  have "\<forall>j. i < j \<and> j < length ls \<longrightarrow> q < time (ls ! j)"
  proof (intro allI impI)
    fix j assume j: "i < j \<and> j < length ls"
    then have "Suc i \<le> j" by simp
    then have "time (ls ! Suc i) \<le> time (ls ! j)" using sorted_times_nth [OF st] j by simp
    with a show "q < time (ls ! j)" by simp
  qed
  with a show "scanSyncedLyrics q ls (length ls) = int i"
    by (intro scanSyncedLyrics_hit) simp_all
next
  assume q: "time (ls ! (length ls - 1)) \<le> q"
  from ne have "length ls - 1 < length ls" by (cases ls) simp_all
  moreover have "\<forall>j. length ls - 1 < j \<and> j < length ls \<longrightarrow> q < time (ls ! j)" by auto
  ultimately show "scanSyncedLyrics q ls (length ls) = int (length ls - 1)"
    using q by (intro scanSyncedLyrics_hit) simp_all
qed

lemma strict_sorted_times: "sorted_wrt (<) (map time ls) \<Longrightarrow> sorted (map time ls)"
  by (simp add: strict_sorted_imp_sorted)

text \<open>The rounding is monotone, so the thresholds of the App come in the order of the times.\<close>

lemma thresholds_sorted:
  "sorted (map time ls) \<Longrightarrow>
   sorted (map time (map (\<lambda>e. e\<lparr>time := fl (time e - fl 0.1)\<rparr>) ls))"
proof (induction ls)
  case Nil
  then show ?case by simp
next
  case (Cons x xs)
  then have "\<forall>y\<in>set xs. fl (time x - fl 0.1) \<le> fl (time y - fl 0.1)"
    by (auto intro!: fl_mono)
  with Cons show ?case by (simp add: comp_def)
qed

text \<open>
  C1. The claim that both lookups return the index of the last line whose time is at most
  the query time fails for the karaoke App: \<open>syncLyrics\<close> compares with \<open>time - 0.1\<close>.
  On the example track, the double 2.95 lies between the times of lines 0 and 1, and the
  lookup already answers 1.
\<close>

theorem lookup_lookahead_counterexample:
  "sorted_wrt (<) (map time exampleLines) \<and>
   time (exampleLines ! 0) \<le> fl 2.95 \<and> fl 2.95 < time (exampleLines ! 1) \<and>
   lyrics exampleApp = Some \<lparr>synced = True, lines = exampleLines\<rparr> \<and>
   currentLine (syncLyrics (fl 2.95) exampleApp) = 1"
  by code_simp

text \<open>
  C1, amended. For a track with strictly increasing times \<open>t0 < ... < tn\<close>:
  app.js's \<open>syncLyricsToTime\<close> computes \<open>-1\<close> for \<open>q < t0\<close>, \<open>i\<close> for
  \<open>ti \<le> q < t(i+1)\<close> and \<open>n\<close> for \<open>q \<ge> tn\<close>; the App's \<open>syncLyrics\<close> computes the
  same with every time \<open>ti\<close> replaced by the threshold \<open>ui\<close>, the double nearest to
  \<open>ti - 0.1\<close> (with 0.1 the double): \<open>-1\<close> for \<open>q < u0\<close>, \<open>i\<close> for
  \<open>ui \<le> q < u(i+1)\<close> and \<open>n\<close> for \<open>q \<ge> un\<close>.
\<close>

theorem lookup_contract:
  assumes "hasSyncedLyrics s" and "syncedLyrics s = ls"
    and "lyrics a = Some ld" and "lines ld = ls"
    and "ls \<noteq> []" and "sorted_wrt (<) (map time ls)"
  shows "(q < time (ls ! 0) \<longrightarrow> currentLineIndex (syncLyricsToTime q s) = - 1) \<and>
         (\<forall>i. Suc i < length ls \<and> time (ls ! i) \<le> q \<and> q < time (ls ! Suc i) \<longrightarrow>
              currentLineIndex (syncLyricsToTime q s) = int i) \<and>
         (time (ls ! (length ls - 1)) \<le> q \<longrightarrow>
              currentLineIndex (syncLyricsToTime q s) = int (length ls - 1)) \<and>
         (q < fl (time (ls ! 0) - fl 0.1) \<longrightarrow> currentLine (syncLyrics q a) = - 1) \<and>
         (\<forall>i. Suc i < length ls \<and> fl (time (ls ! i) - fl 0.1) \<le> q \<and>
              q < fl (time (ls ! Suc i) - fl 0.1) \<longrightarrow>
              currentLine (syncLyrics q a) = int i) \<and>
         (fl (time (ls ! (length ls - 1)) - fl 0.1) \<le> q \<longrightarrow>
              currentLine (syncLyrics q a) = int (length ls - 1))"
proof -
  define us where "us = map (\<lambda>e. e\<lparr>time := fl (time e - fl 0.1)\<rparr>) ls"
  have len: "length us = length ls" by (simp add: us_def)
  have u: "\<And>j. j < length ls \<Longrightarrow> time (us ! j) = fl (time (ls ! j) - fl 0.1)"
    by (simp add: us_def)
  have l0: "0 < length ls" and l1: "length ls - 1 < length ls"
    using assms(5) by (cases ls, simp_all)+
  have ws: "sorted (map time ls)" using assms(6) by (rule strict_sorted_times)
  have wu: "sorted (map time us)" unfolding us_def using ws by (rule thresholds_sorted)
  have une: "us \<noteq> []" using assms(5) by (simp add: us_def)
  have A: "currentLineIndex (syncLyricsToTime q s) = scanSyncedLyrics q ls (length ls)"
    using assms syncLyricsToTime_index [of s q] by simp
  have B: "currentLine (syncLyrics q a) = scanSyncedLyrics q us (length us)"
    using assms syncLyrics_index [of a ld q] scanLines_thresholds [of "length ls" ls q]
    by (simp add: us_def)
  note L1 = lookup_sorted [OF assms(5) ws, of q]
  note L2 = lookup_sorted [OF une wu, of q]
  have C1: "q < time (ls ! 0) \<longrightarrow> currentLineIndex (syncLyricsToTime q s) = - 1"
    using L1 A by simp
  have C2: "\<forall>i. Suc i < length ls \<and> time (ls ! i) \<le> q \<and> q < time (ls ! Suc i) \<longrightarrow>
              currentLineIndex (syncLyricsToTime q s) = int i"
    using L1 A by simp
  have C3: "time (ls ! (length ls - 1)) \<le> q \<longrightarrow>
              currentLineIndex (syncLyricsToTime q s) = int (length ls - 1)"
    using L1 A by simp
  have D1: "q < fl (time (ls ! 0) - fl 0.1) \<longrightarrow> currentLine (syncLyrics q a) = - 1"
    using L2 B u [OF l0] by simp
  have D2: "\<forall>i. Suc i < length ls \<and> fl (time (ls ! i) - fl 0.1) \<le> q \<and>
              q < fl (time (ls ! Suc i) - fl 0.1) \<longrightarrow>
              currentLine (syncLyrics q a) = int i"
  proof (intro allI impI)
    fix i
    assume h: "Suc i < length ls \<and> fl (time (ls ! i) - fl 0.1) \<le> q \<and>
              q < fl (time (ls ! Suc i) - fl 0.1)"
    then have "Suc i < length us \<and> time (us ! i) \<le> q \<and> q < time (us ! Suc i)"
      using u [of i] u [of "Suc i"] len by simp
    with L2 have "scanSyncedLyrics q us (length us) = int i" by blast
    with B show "currentLine (syncLyrics q a) = int i" by simp
  qed
  have D3: "fl (time (ls ! (length ls - 1)) - fl 0.1) \<le> q \<longrightarrow>
              currentLine (syncLyrics q a) = int (length ls - 1)"
    using L2 B u [OF l1] len by simp
  from C1 C2 C3 D1 D2 D3 show ?thesis by blast
qed

lemma exampleLines_sorted: "exampleLines \<noteq> [] \<and> sorted_wrt (<) (map time exampleLines)"
  by (simp add: exampleLines_def)

theorem lookup_contract_witness:
  "hasSyncedLyrics exampleAppState \<and> syncedLyrics exampleAppState = exampleLines \<and>
   lyrics exampleApp = Some \<lparr>synced = True, lines = exampleLines\<rparr> \<and>
   exampleLines \<noteq> [] \<and> sorted_wrt (<) (map time exampleLines) \<and>
   currentLineIndex (syncLyricsToTime (- 1) exampleAppState) = - 1 \<and>
   currentLineIndex (syncLyricsToTime 3.25 exampleAppState) = 1 \<and>
   currentLineIndex (syncLyricsToTime 6.125 exampleAppState) = 2 \<and>
   - 1 < fl (0 - fl 0.1) \<and> currentLine (syncLyrics (- 1) exampleApp) = - 1 \<and>
   fl (3 - fl 0.1) \<le> fl 2.9 \<and> fl 2.9 < fl (6 - fl 0.1) \<and>
   currentLine (syncLyrics (fl 2.9) exampleApp) = 1 \<and>
   fl (6 - fl 0.1) \<le> fl 5.9 \<and> currentLine (syncLyrics (fl 5.9) exampleApp) = 2"
proof -
  have h1: "hasSyncedLyrics exampleAppState" and h2: "syncedLyrics exampleAppState = exampleLines"
    by (simp_all add: exampleAppState_def initialAppState_def)
  have h3: "lyrics exampleApp = Some \<lparr>synced = True, lines = exampleLines\<rparr>"
    by (simp add: exampleApp_def initialApp_def)
  have h4: "lines \<lparr>synced = True, lines = exampleLines\<rparr> = exampleLines" by simp
  have h5: "exampleLines \<noteq> []" and h6: "sorted_wrt (<) (map time exampleLines)"
    using exampleLines_sorted by simp_all
  note T = lookup_contract [OF h1 h2 h3 h4 h5 h6]
  have n: "exampleLines ! 0 = \<lparr>time = 0, text' = ''Line A''\<rparr>"
     "exampleLines ! Suc 0 = \<lparr>time = 3, text' = ''Line B''\<rparr>"
     "exampleLines ! Suc (Suc 0) = \<lparr>time = 6, text' = ''Line C''\<rparr>"
     "length exampleLines = 3"
    by (simp_all add: exampleLines_def)
  have r0: "- 1 < fl (0 - fl 0.1)" and r1: "fl (3 - fl 0.1) \<le> fl 2.9"
    and r2: "fl 2.9 < fl (6 - fl 0.1)" and r3: "fl (6 - fl 0.1) \<le> fl 5.9"
    by code_simp+
  have a1: "currentLineIndex (syncLyricsToTime (- 1) exampleAppState) = - 1"
    using T [of "- 1"] n by simp
  have a2: "currentLineIndex (syncLyricsToTime 3.25 exampleAppState) = 1"
    using conjunct1 [OF conjunct2 [OF T [of "3.25"]], THEN spec, of "Suc 0"] n by simp
  have a3: "currentLineIndex (syncLyricsToTime 6.125 exampleAppState) = 2"
    using T [of "6.125"] n by (simp add: numeral_2_eq_2)
  have b1: "currentLine (syncLyrics (- 1) exampleApp) = - 1"
    using T [of "- 1"] n r0 by simp
  have b2: "currentLine (syncLyrics (fl 2.9) exampleApp) = 1"
    using conjunct1 [OF conjunct2 [OF conjunct2 [OF conjunct2 [OF conjunct2 [OF T [of "fl 2.9"]]]]],
        THEN spec, of "Suc 0"] n r1 r2 by simp
  have b3: "currentLine (syncLyrics (fl 5.9) exampleApp) = 2"
    using T [of "fl 5.9"] n r3 by (simp add: numeral_2_eq_2)
  from h1 h2 h3 h5 h6 r0 r1 r2 r3 a1 a2 a3 b1 b2 b3 show ?thesis by simp
qed

section \<open>Theorems about the progress number\<close>

lemma syncLyricsToTime_progress:
  "progressFillWidth (syncLyricsToTime q s) = progressFillWidth s"
  by (simp add: syncLyricsToTime_def Let_def)

lemma syncLyrics_progress: "progressWidth (syncLyrics q a) = progressWidth a"
  by (simp add: syncLyrics_def playBeep_def Let_def split: option.splits)

lemma getAccurateTime_nonneg: "0 \<le> getAccurateTime e"
  by (simp add: getAccurateTime_def Let_def split: option.splits)

lemma updateProgress_width:
  "progressFillWidth (updateProgress (Some p) s) =
     Some (js_times100 (js_div (getCurrentTime p) (getDuration p)))"
  by (simp add: updateProgress_def Let_def syncLyricsToTime_progress)

lemma syncFrame_width:
  "progressWidth (syncFrame (Some p) a) =
     Some (js_times100 (js_div (getAccurateTime (syncEngine a)) (getDuration p)))"
  by (simp add: syncFrame_def Let_def syncLyrics_progress)

text \<open>
  C5. The claim that a tick with a zero duration skips or clamps the progress percentage
  fails: neither tick tests the duration. With time 0 and duration 0 both programs
  compute \<open>0 / 0 * 100\<close> and write \<open>NaN\<close> into the width of the progress bar.
\<close>

theorem zero_duration_counterexample:
  "progressFillWidth
     (updateProgress (Some \<lparr>getCurrentTime = 0, getDuration = 0\<rparr>) exampleAppState) = Some NaN \<and>
   progressWidth
     (syncFrame (Some \<lparr>getCurrentTime = 0, getDuration = 0\<rparr>) exampleApp) = Some NaN"
  by (simp add: updateProgress_width syncFrame_width js_div_def exampleApp_def initialApp_def
      getAccurateTime_def readyEngine_def init_def newAudioSyncEngine_def fl_zero)

text \<open>
  C5, amended. On a tick where the transport reports the duration 0, the progress
  percentage is computed and written all the same: it is \<open>NaN\<close> when the time is 0 and
  an infinity otherwise. The lyric lookup of that tick works on the raw seconds and gives
  the index it gives without the progress computation.
\<close>

theorem zero_duration_progress:
  assumes "getDuration p = 0"
  shows "progressFillWidth (updateProgress (Some p) s) =
           Some (if getCurrentTime p = 0 then NaN
                 else if getCurrentTime p > 0 then PosInfinity else NegInfinity) \<and>
         progressWidth (syncFrame (Some p) a) =
           Some (if getAccurateTime (syncEngine a) = 0 then NaN else PosInfinity) \<and>
         currentLineIndex (updateProgress (Some p) s) =
           currentLineIndex (syncLyricsToTime (getCurrentTime p) s) \<and>
         currentLine (syncFrame (Some p) a) =
           currentLine (syncLyrics (getAccurateTime (syncEngine a)) a)"
proof -
  have 1: "progressFillWidth (updateProgress (Some p) s) =
           Some (if getCurrentTime p = 0 then NaN
                 else if getCurrentTime p > 0 then PosInfinity else NegInfinity)"
    using assms by (simp add: updateProgress_width js_div_def)
  have 2: "progressWidth (syncFrame (Some p) a) =
           Some (if getAccurateTime (syncEngine a) = 0 then NaN else PosInfinity)"
    using assms getAccurateTime_nonneg [of "syncEngine a"]
    by (simp add: syncFrame_width js_div_def)
  have 3: "currentLineIndex (updateProgress (Some p) s) =
           currentLineIndex (syncLyricsToTime (getCurrentTime p) s)"
    by (simp add: updateProgress_def Let_def syncLyricsToTime_def)
  have 4: "currentLine (syncFrame (Some p) a) =
           currentLine (syncLyrics (getAccurateTime (syncEngine a)) a)"
    by (simp add: syncFrame_def Let_def syncLyrics_def playBeep_def correctDrift_def
        split: option.splits)
  from 1 2 3 4 show ?thesis by simp
qed

theorem zero_duration_progress_witness:
  "getDuration \<lparr>getCurrentTime = 0, getDuration = 0\<rparr> = 0 \<and>
   progressFillWidth
     (updateProgress (Some \<lparr>getCurrentTime = 0, getDuration = 0\<rparr>) exampleAppState) = Some NaN \<and>
   progressWidth
     (syncFrame (Some \<lparr>getCurrentTime = 0, getDuration = 0\<rparr>) exampleApp) = Some NaN"
proof -
  have d: "getDuration \<lparr>getCurrentTime = 0, getDuration = 0\<rparr> = 0" by simp
  have g: "getAccurateTime (syncEngine exampleApp) = 0"
    by (simp add: exampleApp_def initialApp_def getAccurateTime_def readyEngine_def init_def
        newAudioSyncEngine_def fl_zero)
  show ?thesis
    using zero_duration_progress [OF d, of exampleAppState exampleApp] g by simp
qed

text \<open>
  With a duration other than 0 the written number is the finite percentage, rounded after
  the division and after the multiplication.
\<close>

lemma nonzero_duration_progress:
  "getDuration p \<noteq> 0 \<Longrightarrow>
   progressFillWidth (updateProgress (Some p) s) =
     Some (Finite (fl (fl (getCurrentTime p / getDuration p) * 100))) \<and>
   progressWidth (syncFrame (Some p) a) =
     Some (Finite (fl (fl (getAccurateTime (syncEngine a) / getDuration p) * 100)))"
  by (simp add: updateProgress_width syncFrame_width js_div_def)

section \<open>The loops of the parsers end\<close>

lemma expect_Some: "expect c s = Some r \<Longrightarrow> s = c # r"
  by (cases s) (auto split: if_splits)

lemma digits_Some:
  "digits n s = Some (g, r) \<Longrightarrow> s = g @ r \<and> length g = n \<and> list_all isDigit g"
  by (auto simp: digits_def split: if_splits)

lemma fractionClose_Some:
  "fractionClose n s = Some (g, r) \<Longrightarrow>
   s = g @ CHR '']'' # r \<and> length g = n \<and> list_all isDigit g"
  by (auto simp: fractionClose_def split: Option.bind_splits dest!: digits_Some expect_Some)

lemma fraction_Some:
  "fraction s = Some (g, r) \<Longrightarrow>
   s = g @ CHR '']'' # r \<and> (length g = 2 \<or> length g = 3) \<and> list_all isDigit g"
  by (auto simp: fraction_def split: option.splits dest!: fractionClose_Some)

lemma timeRegex_Some:
  assumes "timeRegex s = Some ((g1, g2, g3), r)"
  shows "s = CHR ''['' # g1 @ CHR '':'' # g2 @ CHR ''.'' # g3 @ CHR '']'' # r \<and>
         length g1 = 2 \<and> length g2 = 2 \<and> (length g3 = 2 \<or> length g3 = 3) \<and>
         list_all isDigit g1 \<and> list_all isDigit g2 \<and> list_all isDigit g3"
  using assms
  by (auto simp: timeRegex_def split: Option.bind_splits
      dest!: digits_Some expect_Some fraction_Some)

lemma timeRegex_shorter: "timeRegex s = Some (g, r) \<Longrightarrow> length r < length s"
  by (cases g) (auto dest!: timeRegex_Some)

lemma lrcRegexMinutes_shorter: "lrcRegexMinutes n s = Some (g, r) \<Longrightarrow> length r \<le> length s"
proof -
  assume a: "lrcRegexMinutes n s = Some (g, r)"
  have dw: "\<And>P (xs::string). length (dropWhile P xs) \<le> length xs"
    by (simp add: length_dropWhile_le)
  from a obtain s6 where r: "r = dropWhile (\<lambda>c. \<not> isLineTerminator c) s6"
      and l: "length s6 \<le> length s"
    by (auto simp: lrcRegexMinutes_def split: Option.bind_splits
        dest!: digits_Some expect_Some fraction_Some)
  with dw [of "\<lambda>c. \<not> isLineTerminator c" s6] show ?thesis by simp
qed

lemma lrcRegex_shorter: "lrcRegex s = Some (g, r) \<Longrightarrow> length r < length s"
  by (auto simp: lrcRegex_def split: Option.bind_splits option.splits
      dest!: expect_Some lrcRegexMinutes_shorter)

lemma searchFrom_bounds:
  assumes m: "\<And>s g r. m s = Some (g, r) \<Longrightarrow> length r < length s"
  shows "searchFrom m s i = Some (idx, len, g) \<Longrightarrow>
         i \<le> idx \<and> 0 < len \<and> idx + len \<le> i + length s"
proof (induction s arbitrary: i)
  case Nil
  then show ?case using m [of "[]"] by (auto split: option.splits)
next
  case (Cons c cs)
  show ?case
  proof (cases "m (c # cs)")
    case None
    with Cons.prems have "searchFrom m cs (Suc i) = Some (idx, len, g)" by simp
    from Cons.IH [OF this] show ?thesis by simp
  next
    case (Some a)
    obtain g' r where a: "a = (g', r)" by (cases a)
    from m [of "c # cs" g' r] Some a have "length r < length (c # cs)" by simp
    with Cons.prems Some a show ?thesis by auto
  qed
qed

lemma regexExec_bounds:
  assumes m: "\<And>s g r. m s = Some (g, r) \<Longrightarrow> length r < length s"
    and e: "regexExec m s lastIndex = Some (idx, len, g)"
  shows "lastIndex \<le> idx \<and> 0 < len \<and> idx + len \<le> length s"
proof -
  from e have le: "lastIndex \<le> length s"
    and sf: "searchFrom m (drop lastIndex s) lastIndex = Some (idx, len, g)"
    by (auto simp: regexExec_def split: if_splits)
  from searchFrom_bounds [of m, OF m sf] le show ?thesis by simp
qed

lemma timestampLoop_returns: "\<exists>r. timestampLoop line i ts li = Some r"
proof (induction "Suc (length line) - i" arbitrary: i ts li rule: less_induct)
  case less
  show ?case
  proof (cases "regexExec timeRegex line i")
    case None
    then show ?thesis by (subst timestampLoop.simps) simp
  next
    case (Some a)
    obtain idx len g1 g2 g3 where a: "a = (idx, len, (g1, g2, g3))" by (cases a) auto
    from regexExec_bounds [of timeRegex line i idx len "(g1, g2, g3)"] Some a
    have b: "i \<le> idx \<and> 0 < len \<and> idx + len \<le> length line"
      using timeRegex_shorter by blast
    then have "Suc (length line) - (idx + len) < Suc (length line) - i" by arith
    from less [OF this] obtain r where
      "timestampLoop line (idx + len) (ts @ [tagTime g1 g2 g3]) (idx + len) = Some r" by blast
    with Some a show ?thesis by (subst timestampLoop.simps) simp
  qed
qed

lemma lineEvents_returns: "\<exists>evs. lineEvents line = Some evs"
proof -
  obtain r where "timestampLoop line 0 [] 0 = Some r" using timestampLoop_returns by blast
  then show ?thesis by (cases r) (simp add: lineEvents_def Let_def)
qed

lemma parseLines_returns: "\<exists>evs. parseLines ls parsed = Some evs"
proof (induction ls arbitrary: parsed)
  case Nil
  then show ?case by simp
next
  case (Cons l ls)
  obtain evs where "lineEvents l = Some evs" using lineEvents_returns by blast
  with Cons show ?case by simp
qed

lemma parsedBeforeSort_returns: "\<exists>parsed. parsedBeforeSort s = Some parsed"
  by (simp add: parsedBeforeSort_def parseLines_returns)

lemma parseLRCLoop_returns: "\<exists>r. parseLRCLoop s i ls = Some r"
proof (induction "Suc (length s) - i" arbitrary: i ls rule: less_induct)
  case less
  show ?case
  proof (cases "regexExec lrcRegex s i")
    case None
    then show ?thesis by (subst parseLRCLoop.simps) simp
  next
    case (Some a)
    obtain idx len g1 g2 g3 g4 where a: "a = (idx, len, (g1, g2, g3, g4))" by (cases a) auto
    from regexExec_bounds [of lrcRegex s i idx len "(g1, g2, g3, g4)"] Some a
    have b: "i \<le> idx \<and> 0 < len \<and> idx + len \<le> length s"
      using lrcRegex_shorter by blast
    then have d: "Suc (length s) - (idx + len) < Suc (length s) - i" by arith
    show ?thesis
      using Some a less [OF d] by (subst parseLRCLoop.simps) (simp add: Let_def)
  qed
qed

lemma linesBeforeSort_returns: "\<exists>ls. linesBeforeSort s = Some ls"
  by (simp add: linesBeforeSort_def parseLRCLoop_returns)

section \<open>Theorems about the LRC parsers\<close>

lemma insertSorted_set: "set (insertSorted cmp x ys) = insert x (set ys)"
  by (induction ys) auto

lemma insertSorted_length: "length (insertSorted cmp x ys) = Suc (length ys)"
  by (induction ys) auto

lemma arraySort_set: "set (arraySort cmp xs) = set xs"
  by (induction xs) (auto simp: insertSorted_set)

lemma arraySort_length: "length (arraySort cmp xs) = length xs"
  by (induction xs) (auto simp: insertSorted_length)

lemma insertSorted_sorted:
  "sorted (map time ys) \<Longrightarrow> sorted (map time (insertSorted compareTime x ys))"
  by (induction ys) (auto simp: compareTime_def insertSorted_set)

lemma arraySort_sorted: "sorted (map time (arraySort compareTime xs))"
  by (induction xs) (auto simp: insertSorted_sorted)

lemma insertSorted_stable:
  "filter (\<lambda>e. time e = t) (insertSorted compareTime x ys) =
     filter (\<lambda>e. time e = t) (x # ys)"
  by (induction ys) (auto simp: compareTime_def)

lemma arraySort_stable:
  "filter (\<lambda>e. time e = t) (arraySort compareTime xs) = filter (\<lambda>e. time e = t) xs"
  by (induction xs) (auto simp: insertSorted_stable)

text \<open>
  C9. Both parsers return, for every input, a sequence sorted ascending by time, and the
  sort is stable: for every time \<open>t\<close> the events with time \<open>t\<close> come in the order in
  which they were pushed while scanning the input. The result has the events of the
  scan, no more and no fewer.
\<close>

theorem parse_sorted_stable:
  "(\<exists>parsed evs. parsedBeforeSort s = Some parsed \<and> parseLrcLyrics s = Some evs \<and>
      sorted (map time evs) \<and>
      (\<forall>t. filter (\<lambda>e. time e = t) evs = filter (\<lambda>e. time e = t) parsed) \<and>
      length evs = length parsed \<and> set evs = set parsed) \<and>
   (\<exists>ls evs. linesBeforeSort s = Some ls \<and> parseLRC s = Some evs \<and>
      sorted (map time evs) \<and>
      (\<forall>t. filter (\<lambda>e. time e = t) evs = filter (\<lambda>e. time e = t) ls) \<and>
      length evs = length ls \<and> set evs = set ls)"
proof
  obtain parsed where p: "parsedBeforeSort s = Some parsed"
    using parsedBeforeSort_returns by blast
  then have "parseLrcLyrics s = Some (arraySort compareTime parsed)"
    by (simp add: parseLrcLyrics_def)
  with p show "\<exists>parsed evs. parsedBeforeSort s = Some parsed \<and> parseLrcLyrics s = Some evs \<and>
      sorted (map time evs) \<and>
      (\<forall>t. filter (\<lambda>e. time e = t) evs = filter (\<lambda>e. time e = t) parsed) \<and>
      length evs = length parsed \<and> set evs = set parsed"
    by (simp add: arraySort_sorted arraySort_stable arraySort_length arraySort_set)
next
  obtain ls where p: "linesBeforeSort s = Some ls"
    using linesBeforeSort_returns by blast
  then have "parseLRC s = Some (arraySort compareTime ls)"
    by (simp add: parseLRC_def)
  with p show "\<exists>ls evs. linesBeforeSort s = Some ls \<and> parseLRC s = Some evs \<and>
      sorted (map time evs) \<and>
      (\<forall>t. filter (\<lambda>e. time e = t) evs = filter (\<lambda>e. time e = t) ls) \<and>
      length evs = length ls \<and> set evs = set ls"
    by (simp add: arraySort_sorted arraySort_stable arraySort_length arraySort_set)
qed

lemma lineEvents_no_tag: "regexExec timeRegex line 0 = None \<Longrightarrow> lineEvents line = Some []"
  by (simp add: lineEvents_def timestampLoop.simps [of line 0])

lemma parseLines_no_tag:
  "list_all (\<lambda>line. regexExec timeRegex line 0 = None) ls \<Longrightarrow> parseLines ls parsed = Some parsed"
  by (induction ls arbitrary: parsed) (auto simp: lineEvents_no_tag)

text \<open>
  C8. \<open>parseLrcLyrics\<close> returns a sequence of events for every input string: its loops
  end and nothing in it raises. Bracket contents that do not match the tag pattern are not
  tags: an input without a well-formed tag on any line gives the empty sequence.
\<close>

theorem parse_never_fails:
  "(\<exists>evs. parseLrcLyrics s = Some evs) \<and>
   (list_all (\<lambda>line. regexExec timeRegex line 0 = None) (splitLines s) \<longrightarrow>
      parseLrcLyrics s = Some [])"
proof
  obtain parsed where "parsedBeforeSort s = Some parsed"
    using parsedBeforeSort_returns by blast
  then show "\<exists>evs. parseLrcLyrics s = Some evs" by (simp add: parseLrcLyrics_def)
next
  show "list_all (\<lambda>line. regexExec timeRegex line 0 = None) (splitLines s) \<longrightarrow>
      parseLrcLyrics s = Some []"
    by (simp add: parseLrcLyrics_def parsedBeforeSort_def parseLines_no_tag)
qed

theorem parse_never_fails_witness:
  "list_all (\<lambda>line. regexExec timeRegex line 0 = None)
     (splitLines ''[xx:yy.zz]Hello\<newline>[1:2.5]la [00:01:00]'') \<and>
   parseLrcLyrics ''[xx:yy.zz]Hello\<newline>[1:2.5]la [00:01:00]'' = Some []"
proof -
  have h: "list_all (\<lambda>line. regexExec timeRegex line 0 = None)
     (splitLines ''[xx:yy.zz]Hello\<newline>[1:2.5]la [00:01:00]'')"
    by code_simp
  show ?thesis
    using parse_never_fails [of "''[xx:yy.zz]Hello\<newline>[1:2.5]la [00:01:00]''"] h by simp
qed

lemma digitValue_zero: "digitValue CHR ''0'' = 0"
  by (simp add: digitValue_def)

lemma isDigit_zero: "isDigit CHR ''0''"
  by (simp add: isDigit_def)

lemma foldl_zeros:
  "foldl (\<lambda>n c. 10 * n + digitValue c) a (replicate k CHR ''0'') = a * 10 ^ k"
  by (induction k arbitrary: a) (simp_all add: digitValue_zero)

lemma parseInt_padEnd:
  assumes "list_all isDigit ds"
  shows "parseInt (padEnd n CHR ''0'' ds) = parseInt ds * 10 ^ (n - length ds)"
proof -
  have t: "takeWhile isDigit (ds @ replicate (n - length ds) CHR ''0'') =
      ds @ replicate (n - length ds) CHR ''0''"
    using assms by (auto simp: takeWhile_eq_all_conv list_all_iff isDigit_zero)
  have t': "takeWhile isDigit ds = ds"
    using assms by (simp add: takeWhile_eq_all_conv list_all_iff)
  show ?thesis
    unfolding parseInt_def padEnd_def t t' by (simp add: foldl_zeros)
qed

text \<open>
  C6. The fractional digits of a tag are padded on the right with zeros to three digits
  and then read as milliseconds: a digit group \<open>g3\<close> counts as
  \<open>parseInt g3 * 10 ^ (3 - length g3)\<close> milliseconds. So \<open>[00:01.50]Hello\<close> parses to
  the single event at 1.5 seconds with text \<open>Hello\<close>.
\<close>

theorem fraction_padded_to_milliseconds:
  "(list_all isDigit g3 \<longrightarrow>
      tagTime g1 g2 g3 =
        real (parseInt g1) * 60 + real (parseInt g2) +
        real (parseInt g3 * 10 ^ (3 - length g3)) / 1000) \<and>
   parseLrcLyrics ''[00:01.50]Hello'' = Some [\<lparr>time = 1.5, text' = ''Hello''\<rparr>]"
proof
  show "list_all isDigit g3 \<longrightarrow>
      tagTime g1 g2 g3 =
        real (parseInt g1) * 60 + real (parseInt g2) +
        real (parseInt g3 * 10 ^ (3 - length g3)) / 1000"
    by (simp add: tagTime_def Let_def parseInt_padEnd)
next
  have "parseLrcLyrics ''[00:01.50]Hello'' = Some [\<lparr>time = 3 / 2, text' = ''Hello''\<rparr>]"
    by code_simp
  then show "parseLrcLyrics ''[00:01.50]Hello'' = Some [\<lparr>time = 1.5, text' = ''Hello''\<rparr>]"
    by simp
qed

theorem fraction_padded_to_milliseconds_witness:
  "list_all isDigit ''50'' \<and> parseInt ''50'' * 10 ^ (3 - length ''50'') = 500 \<and>
   tagTime ''00'' ''01'' ''50'' = 1.5"
proof -
  have d: "list_all isDigit ''50''" by code_simp
  have p: "parseInt ''00'' = 0" "parseInt ''01'' = 1" "parseInt ''50'' = 50" by code_simp+
  show ?thesis
    using fraction_padded_to_milliseconds [of "''50''" "''00''" "''01''"] d p by simp
qed

text \<open>
  C7. On the line \<open>[00:01.00][00:05.00]Chorus\<close> the App's \<open>parseLRC\<close> returns one
  event at 1 second whose text is \<open>[00:05.00]Chorus\<close>: its pattern takes the rest of the
  line as the text of the first tag. app.js's \<open>parseLrcLyrics\<close> returns the two events
  at 1 and 5 seconds with the text \<open>Chorus\<close>.
\<close>

theorem parseLRC_multiple_tags:
  "parseLRC ''[00:01.00][00:05.00]Chorus'' =
     Some [\<lparr>time = 1, text' = ''[00:05.00]Chorus''\<rparr>] \<and>
   parseLrcLyrics ''[00:01.00][00:05.00]Chorus'' =
     Some [\<lparr>time = 1, text' = ''Chorus''\<rparr>, \<lparr>time = 5, text' = ''Chorus''\<rparr>]"
  by code_simp

text \<open>
  In app.js every line with several leading tags is handled: a line made of leading tags followed
  by a rest without any tag gives one event per tag, in the order of the tags, all with
  the trimmed rest as text (and no event when the trimmed rest is empty).
\<close>

lemma digits_append:
  "length g = n \<Longrightarrow> list_all isDigit g \<Longrightarrow> digits n (g @ r) = Some (g, r)"
  by (simp add: digits_def)

lemma not_digit_close: "\<not> isDigit CHR '']''"
  by (simp add: isDigit_def)

lemma fraction_append:
  assumes "length g = 2 \<or> length g = 3" and "list_all isDigit g"
  shows "fraction (g @ CHR '']'' # r) = Some (g, r)"
proof (cases "length g = 3")
  case True
  with assms show ?thesis
    by (simp add: fraction_def fractionClose_def digits_append)
next
  case False
  with assms have l: "length g = 2" by simp
  then have "take 3 (g @ CHR '']'' # r) = g @ [CHR '']'']" by simp
  then have "digits 3 (g @ CHR '']'' # r) = None"
    by (simp add: digits_def not_digit_close)
  then have "fractionClose 3 (g @ CHR '']'' # r) = None" by (simp add: fractionClose_def)
  with l assms show ?thesis
    by (simp add: fraction_def fractionClose_def digits_append)
qed

lemma timeRegex_append:
  assumes "timeRegex tg = Some (g, [])"
  shows "timeRegex (tg @ s) = Some (g, s)"
proof -
  obtain g1 g2 g3 where g: "g = (g1, g2, g3)" by (cases g)
  from timeRegex_Some [of tg g1 g2 g3 "[]"] assms g
  have tg: "tg = CHR ''['' # g1 @ CHR '':'' # g2 @ CHR ''.'' # g3 @ [CHR '']'']"
    and l: "length g1 = 2" "length g2 = 2" "length g3 = 2 \<or> length g3 = 3"
    and d: "list_all isDigit g1" "list_all isDigit g2" "list_all isDigit g3"
    by simp_all
  show ?thesis
    unfolding tg g using l d
    by (simp add: timeRegex_def digits_append fraction_append)
qed

lemma searchFrom_shift:
  "searchFrom m s i = map_option (\<lambda>(idx, len, g). (idx + i, len, g)) (searchFrom m s 0)"
proof (induction s arbitrary: i)
  case Nil
  then show ?case by (simp split: option.splits)
next
  case (Cons c cs)
  show ?case
  proof (cases "m (c # cs)")
    case None
    then show ?thesis
      using Cons.IH [of "Suc i"] Cons.IH [of "Suc 0"]
      by (simp add: option.map_comp comp_def case_prod_unfold)
  next
    case (Some a)
    then show ?thesis by (simp split: prod.splits)
  qed
qed

lemma regexExec_after_prefix:
  "regexExec m (pre @ s) (length pre) =
     map_option (\<lambda>(idx, len, g). (idx + length pre, len, g)) (regexExec m s 0)"
  using searchFrom_shift [of m s "length pre"] by (simp add: regexExec_def)

lemma regexExec_wholeTag:
  assumes "timeRegex tg = Some (g, [])"
  shows "regexExec timeRegex (tg @ s) 0 = Some (0, length tg, g)"
proof -
  from timeRegex_shorter [OF assms] obtain c cs where tg: "tg = c # cs" by (cases tg) auto
  from timeRegex_append [OF assms, of s] have "timeRegex (c # cs @ s) = Some (g, s)"
    by (simp add: tg)
  then show ?thesis by (simp add: regexExec_def tg)
qed

lemma timestampLoop_leading_tags:
  assumes "list_all wholeTag tags" and "regexExec timeRegex rest 0 = None"
  shows "timestampLoop (pre @ concat tags @ rest) (length pre) ts li =
           Some (ts @ map timeOfTag tags,
                 if tags = [] then li else length pre + length (concat tags))"
  using assms(1)
proof (induction tags arbitrary: pre ts li)
  case Nil
  have "regexExec timeRegex (pre @ rest) (length pre) = None"
    using assms(2) by (simp add: regexExec_after_prefix)
  then show ?case by (subst timestampLoop.simps) simp
next
  case (Cons tg tags)
  from Cons.prems have wt: "wholeTag tg" and all: "list_all wholeTag tags" by simp_all
  from wt obtain g where m: "timeRegex tg = Some (g, [])"
    by (auto simp: wholeTag_def split: option.splits)
  obtain g1 g2 g3 where g: "g = (g1, g2, g3)" by (cases g)
  have e: "regexExec timeRegex (pre @ tg @ concat tags @ rest) (length pre) =
      Some (length pre, length tg, g)"
    using regexExec_wholeTag [OF m, of "concat tags @ rest"]
    by (simp add: regexExec_after_prefix)
  have t: "timeOfTag tg = tagTime g1 g2 g3" using m g by (simp add: timeOfTag_def)
  have "timestampLoop (pre @ concat (tg # tags) @ rest) (length pre) ts li =
      timestampLoop ((pre @ tg) @ concat tags @ rest) (length (pre @ tg))
        (ts @ [tagTime g1 g2 g3]) (length pre + length tg)"
    using e g by (subst timestampLoop.simps) simp
  also have "\<dots> = Some ((ts @ [tagTime g1 g2 g3]) @ map timeOfTag tags,
      if tags = [] then length pre + length tg
      else length (pre @ tg) + length (concat tags))"
    by (rule Cons.IH [OF all])
  finally show ?case using t by auto
qed

lemma concat_map_singleton: "concat (map (\<lambda>x. [f x]) xs) = map f xs"
  by (induction xs) simp_all

lemma lineEvents_leading_tags:
  assumes "list_all wholeTag tags" and "regexExec timeRegex rest 0 = None"
  shows "lineEvents (concat tags @ rest) =
           Some (if trim rest = [] then []
                 else map (\<lambda>tg. \<lparr>time = timeOfTag tg, text' = trim rest\<rparr>) tags)"
proof -
  have l: "timestampLoop (concat tags @ rest) 0 [] 0 =
      Some (map timeOfTag tags, if tags = [] then 0 else length (concat tags))"
    using timestampLoop_leading_tags [OF assms, of "[]" "[]" 0] by simp
  show ?thesis
    by (cases "trim rest = []")
       (simp_all add: lineEvents_def l Let_def comp_def concat_map_singleton)
qed

end
